theory Spec2Isabelle
  imports Complex_Main "HOL-Library.Multiset" "HOL-Library.List_Lexorder" "HOL-Library.Char_ord"
begin

section \<open>Python string primitives used by the WiFi manager\<close>

text \<open>
  Strings are lists of characters; a character stands for a code point below 256.
  \<open>is_space\<close> is Python's \<open>str.isspace\<close> on those code points: it decides what
  \<open>str.strip()\<close> removes.
\<close>

definition is_space :: "char \<Rightarrow> bool" where
  "is_space c =
     (let n = (of_char c :: nat)
      in (9 \<le> n \<and> n \<le> 13) \<or> (28 \<le> n \<and> n \<le> 32) \<or> n = 133 \<or> n = 160)"

definition strip :: "string \<Rightarrow> string" where
  "strip s = rev (dropWhile is_space (rev (dropWhile is_space s)))"

text \<open>\<open>s.split(sep)\<close> for a one-character separator: never the empty list.\<close>

fun split_on :: "char \<Rightarrow> string \<Rightarrow> string list" where
  "split_on sep [] = [[]]"
| "split_on sep (c # cs) =
     (if c = sep then [] # split_on sep cs
      else (case split_on sep cs of
              [] \<Rightarrow> [[c]]
            | p # ps \<Rightarrow> (c # p) # ps))"

definition startswith :: "string \<Rightarrow> string \<Rightarrow> bool" where
  "startswith s p = (take (length p) s = p)"

definition newline :: char where
  "newline = CHR 0x0A"

definition colon :: char where
  "colon = CHR '':''"

definition is_digit :: "char \<Rightarrow> bool" where
  "is_digit c = (let n = (of_char c :: nat) in 48 \<le> n \<and> n \<le> 57)"

definition digit_val :: "char \<Rightarrow> nat" where
  "digit_val c = of_char c - 48"

text \<open>
  The digits of a decimal literal, read left to right. Python accepts a single
  underscore between two digits and nothing else.
\<close>

fun digits_value :: "nat \<Rightarrow> string \<Rightarrow> nat option" where
  "digits_value acc [] = Some acc"
| "digits_value acc (c # cs) =
     (if is_digit c then digits_value (10 * acc + digit_val c) cs
      else if c = CHR ''_'' then
        (case cs of
           [] \<Rightarrow> None
         | d # _ \<Rightarrow> if is_digit d then digits_value acc cs else None)
      else None)"

text \<open>
  The whitespace \<open>int()\<close> tolerates around a number is narrower than what
  \<open>str.strip()\<close> removes: the non-ASCII spaces count as a blank, but of the ASCII
  characters only tab, line feed, vertical tab, form feed, carriage return and the blank
  do; the separators U+001C to U+001F make the literal invalid.
\<close>

definition is_int_space :: "char \<Rightarrow> bool" where
  "is_int_space c =
     (let n = (of_char c :: nat) in (9 \<le> n \<and> n \<le> 13) \<or> n = 32 \<or> n = 133 \<or> n = 160)"

definition int_strip :: "string \<Rightarrow> string" where
  "int_strip s = rev (dropWhile is_int_space (rev (dropWhile is_int_space s)))"

text \<open>The default limit of the interpreter on the digits of a decimal literal.\<close>

definition max_str_digits :: nat where
  "max_str_digits = 4300"

text \<open>
  \<open>int(s)\<close> in base 10: surrounding whitespace is dropped, one sign is allowed, the
  rest must be a decimal literal starting with a digit, of at most \<open>max_str_digits\<close>
  digits. \<open>None\<close> is \<open>ValueError\<close>. (Interpreters older than the limit accept
  longer literals; nothing below depends on it.)
\<close>

definition py_int :: "string \<Rightarrow> int option" where
  "py_int s =
     (let t = int_strip s;
          neg = (case t of [] \<Rightarrow> False | c # _ \<Rightarrow> c = CHR ''-'');
          body = (case t of [] \<Rightarrow> []
                  | c # cs \<Rightarrow> if c = CHR ''-'' \<or> c = CHR ''+'' then cs else t)
      in case body of
           [] \<Rightarrow> None
         | d # _ \<Rightarrow>
             if is_digit d \<and> length (filter is_digit body) \<le> max_str_digits
             then map_option (\<lambda>n. if neg then - int n else int n) (digits_value 0 body)
             else None)"

section \<open>The world outside the process\<close>

text \<open>
  A command is its argument vector. \<open>subprocess.run\<close> either raises (timeout, missing
  executable: \<open>None\<close>) or returns the exit code and the captured text.
\<close>

type_synonym argv = "string list"

record proc_result =
  returncode :: int
  stdout :: string
  stderr :: string

text \<open>
  The value under the key \<open>last_used\<close> of a saved network: a number (what the program
  writes), or the null or the string that a file written by hand may hold. Other values
  (a boolean, a list, an object, or the NaN and Infinity that are not JSON) are not
  modelled.
\<close>

datatype stamp = is_Num: Num (num_of: real) | Null | is_Str: Str (str_of: string)

text \<open>
  A saved network as it is kept in the JSON file: every network has an ssid and a password
  (a string or null); an absent \<open>last_used\<close> key is \<open>None\<close>.
\<close>

record network =
  net_ssid :: string
  password :: "string option"
  last_used :: "stamp option"

record config =
  networks :: "network list"
  last_connected :: "string option"

text \<open>The exception that can leave a call uncaught.\<close>

datatype error = TypeError

text \<open>
  What happens to a write of the configuration file: it is written; or the directory or
  the file cannot be opened, which leaves the file as it was; or the write fails after
  the file was opened for writing, which leaves a truncated file that no longer parses.
\<close>

datatype write_outcome = Written | Refused | Truncated

text \<open>
  The state the program runs against: the configuration file (\<open>None\<close> when it is
  missing or does not parse), what a write to it does, the clock read by
  \<open>time.time()\<close>, the commands issued so far, and the operating system's answer to
  a command given everything issued before it. The messages the program prints are not
  part of the state.
\<close>

record world =
  config_file :: "config option"
  fs_write :: write_outcome
  clock :: real
  os_log :: "argv list"
  os_reply :: "argv list \<Rightarrow> argv \<Rightarrow> proc_result option"

definition subprocess_run :: "argv \<Rightarrow> world \<Rightarrow> proc_result option \<times> world" where
  "subprocess_run cmd w = (os_reply w (os_log w) cmd, w\<lparr>os_log := os_log w @ [cmd]\<rparr>)"

section \<open>Network store\<close>

definition default_config :: config where
  "default_config = \<lparr>networks = [], last_connected = None\<rparr>"

definition load_config :: "world \<Rightarrow> config" where
  "load_config w = (case config_file w of None \<Rightarrow> default_config | Some c \<Rightarrow> c)"

text \<open>
  A write that fails is reported and not raised. The file is opened with mode \<open>w\<close>
  before the document is dumped into it.
\<close>

definition save_config :: "config \<Rightarrow> world \<Rightarrow> world" where
  "save_config c w =
     (case fs_write w of
        Written \<Rightarrow> w\<lparr>config_file := Some c\<rparr>
      | Refused \<Rightarrow> w
      | Truncated \<Rightarrow> w\<lparr>config_file := None\<rparr>)"

definition save_network :: "string \<Rightarrow> string option \<Rightarrow> world \<Rightarrow> world" where
  "save_network ssid pw w =
     (let cfg = load_config w;
          kept = filter (\<lambda>n. net_ssid n \<noteq> ssid) (networks cfg);
          network_info = \<lparr>net_ssid = ssid, password = pw, last_used = Some (Num (clock w))\<rparr>
      in save_config \<lparr>networks = kept @ [network_info], last_connected = Some ssid\<rparr> w)"

text \<open>The sort key \<open>x.get("last_used", 0)\<close>.\<close>

definition last_used_or_0 :: "network \<Rightarrow> stamp" where
  "last_used_or_0 x = (case last_used x of None \<Rightarrow> Num 0 | Some v \<Rightarrow> v)"

text \<open>
  \<open>sorted(xs, key=k, reverse=True)\<close> is stable: elements with equal keys keep their
  order. It is the stable ascending sort of the reversed list, reversed.
\<close>

definition sorted_reverse :: "('a \<Rightarrow> 'k::linorder) \<Rightarrow> 'a list \<Rightarrow> 'a list" where
  "sorted_reverse k xs = rev (sort_key k (rev xs))"

text \<open>
  \<open>sorted\<close> compares the keys with \<open><\<close> as soon as there are two of them.
  Numbers compare with numbers and strings with strings (by code point, a prefix first);
  a null key, or a number next to a string, raises \<open>TypeError\<close>. Nothing around the
  call, here or in the callers, catches it.
\<close>

definition get_saved_networks :: "world \<Rightarrow> error + network list" where
  "get_saved_networks w =
     (let nets = networks (load_config w)
      in if length nets < 2 then Inr nets
         else if list_all (\<lambda>x. is_Num (last_used_or_0 x)) nets
         then Inr (sorted_reverse (\<lambda>x. num_of (last_used_or_0 x)) nets)
         else if list_all (\<lambda>x. is_Str (last_used_or_0 x)) nets
         then Inr (sorted_reverse (\<lambda>x. str_of (last_used_or_0 x)) nets)
         else Inl TypeError)"

section \<open>Scanner\<close>

record scan_entry =
  ssid :: string
  security :: string
  signal :: string

definition scan_argv :: argv where
  "scan_argv = [''nmcli'', ''-t'', ''-f'', ''SSID,SECURITY,SIGNAL'', ''dev'', ''wifi'']"

text \<open>One line of the listing; \<open>None\<close> when the line adds nothing to \<open>networks\<close>.\<close>

definition parse_line :: "string \<Rightarrow> scan_entry option" where
  "parse_line line =
     (if line \<noteq> [] \<and> colon \<in> set line then
        (case split_on colon line of
           p0 # p1 # p2 # _ \<Rightarrow>
             if p0 \<noteq> [] then
               Some \<lparr>ssid = p0,
                     security = (if p1 \<noteq> [] then p1 else ''Open''),
                     signal = (if p2 \<noteq> [] then p2 else ''0'')\<rparr>
             else None
         | _ \<Rightarrow> None)
      else None)"

definition parse_lines :: "string \<Rightarrow> scan_entry list" where
  "parse_lines out = List.map_filter parse_line (split_on newline (strip out))"

text \<open>
  \<open>unique_networks\<close> is a dictionary; its values come out in the order in which the
  keys were first inserted, so it is an association list updated in place.
\<close>

fun dict_set :: "'k \<Rightarrow> 'v \<Rightarrow> ('k \<times> 'v) list \<Rightarrow> ('k \<times> 'v) list" where
  "dict_set k v [] = [(k, v)]"
| "dict_set k v (p # ps) = (if fst p = k then (k, v) # ps else p # dict_set k v ps)"

text \<open>One round of the deduplication loop; \<open>None\<close> is the \<open>ValueError\<close> of \<open>int\<close>.\<close>

definition unique_step ::
  "scan_entry \<Rightarrow> (string \<times> scan_entry) list \<Rightarrow> (string \<times> scan_entry) list option" where
  "unique_step net u =
     (case map_of u (ssid net) of
        None \<Rightarrow> Some (dict_set (ssid net) net u)
      | Some old \<Rightarrow>
          (case py_int (signal net) of
             None \<Rightarrow> None
           | Some a \<Rightarrow>
               (case py_int (signal old) of
                  None \<Rightarrow> None
                | Some b \<Rightarrow> if a > b then Some (dict_set (ssid net) net u) else Some u)))"

fun unique_loop ::
  "scan_entry list \<Rightarrow> (string \<times> scan_entry) list \<Rightarrow> (string \<times> scan_entry) list option" where
  "unique_loop [] u = Some u"
| "unique_loop (net # nets) u =
     (case unique_step net u of None \<Rightarrow> None | Some u' \<Rightarrow> unique_loop nets u')"

text \<open>The sort key is computed for every element before sorting; one failure raises.\<close>

definition signal_key :: "scan_entry \<Rightarrow> int" where
  "signal_key x = (case py_int (signal x) of None \<Rightarrow> 0 | Some v \<Rightarrow> v)"

definition sort_by_signal :: "scan_entry list \<Rightarrow> scan_entry list option" where
  "sort_by_signal xs =
     (if list_all (\<lambda>x. py_int (signal x) \<noteq> None) xs
      then Some (sorted_reverse signal_key xs) else None)"

definition parse_scan :: "string \<Rightarrow> scan_entry list option" where
  "parse_scan out =
     (case unique_loop (parse_lines out) [] of
        None \<Rightarrow> None
      | Some u \<Rightarrow> sort_by_signal (map snd u))"

text \<open>Every exception inside the body ends in \<open>return []\<close>.\<close>

definition scan_networks :: "world \<Rightarrow> scan_entry list \<times> world" where
  "scan_networks w =
     (case subprocess_run scan_argv w of
        (None, w') \<Rightarrow> ([], w')
      | (Some result, w') \<Rightarrow>
          (case parse_scan (stdout result) of None \<Rightarrow> ([], w') | Some nets \<Rightarrow> (nets, w')))"

section \<open>Connector\<close>

definition connect_open_argv :: "string \<Rightarrow> argv" where
  "connect_open_argv s = [''nmcli'', ''dev'', ''wifi'', ''connect'', s]"

definition connect_password_argv :: "string \<Rightarrow> string \<Rightarrow> argv" where
  "connect_password_argv s p = [''nmcli'', ''dev'', ''wifi'', ''connect'', s, ''password'', p]"

text \<open>Python's truth value of an optional string: \<open>None\<close> and \<open>""\<close> are false.\<close>

definition truthy :: "string option \<Rightarrow> bool" where
  "truthy p = (case p of None \<Rightarrow> False | Some s \<Rightarrow> s \<noteq> [])"

definition connect_to_network :: "string \<Rightarrow> string option \<Rightarrow> world \<Rightarrow> bool \<times> world" where
  "connect_to_network s pw w =
     (case (case pw of
              None \<Rightarrow> subprocess_run (connect_open_argv s) w
            | Some p \<Rightarrow>
                if p \<noteq> [] then subprocess_run (connect_password_argv s p) w
                else subprocess_run (connect_open_argv s) w) of
        (None, w') \<Rightarrow> (False, w')
      | (Some result, w') \<Rightarrow>
          if returncode result = 0 then (True, save_network s pw w') else (False, w'))"

text \<open>The result is the value returned, or the exception that leaves the call.\<close>

definition connect_to_saved :: "string \<Rightarrow> world \<Rightarrow> (error + bool) \<times> world" where
  "connect_to_saved s w =
     (case get_saved_networks w of
        Inl e \<Rightarrow> (Inl e, w)
      | Inr saved_networks \<Rightarrow>
          (case find (\<lambda>n. net_ssid n = s) saved_networks of
             Some n \<Rightarrow> (case connect_to_network s (password n) w of (b, w') \<Rightarrow> (Inr b, w'))
           | None \<Rightarrow> (Inr False, w)))"

definition active_argv :: argv where
  "active_argv = [''nmcli'', ''-t'', ''-f'', ''ACTIVE,SSID'', ''dev'', ''wifi'']"

text \<open>\<open>line.split(':', 1)[1]\<close>: what follows the first colon; \<open>None\<close> is \<open>IndexError\<close>.\<close>

definition after_first_colon :: "string \<Rightarrow> string option" where
  "after_first_colon line =
     (case dropWhile (\<lambda>c. c \<noteq> colon) line of [] \<Rightarrow> None | _ # rest \<Rightarrow> Some rest)"

definition get_current_connection :: "world \<Rightarrow> string option \<times> world" where
  "get_current_connection w =
     (case subprocess_run active_argv w of
        (None, w') \<Rightarrow> (None, w')
      | (Some result, w') \<Rightarrow>
          (case find (\<lambda>line. startswith line ''yes:'') (split_on newline (strip (stdout result))) of
             None \<Rightarrow> (None, w')
           | Some line \<Rightarrow> (after_first_colon line, w')))"

section \<open>Auto-connect\<close>

text \<open>The inner loop over the scan result, for one saved network.\<close>

fun try_available :: "string \<Rightarrow> scan_entry list \<Rightarrow> world \<Rightarrow> (error + bool) \<times> world" where
  "try_available s [] w = (Inr False, w)"
| "try_available s (a # avs) w =
     (if s = ssid a then
        (case connect_to_saved s w of
           (Inl e, w') \<Rightarrow> (Inl e, w')
         | (Inr True, w') \<Rightarrow> (Inr True, w')
         | (Inr False, w') \<Rightarrow> try_available s avs w')
      else try_available s avs w)"

text \<open>The outer loop over the saved networks, most recently used first.\<close>

fun try_saved :: "network list \<Rightarrow> scan_entry list \<Rightarrow> world \<Rightarrow> (error + bool) \<times> world" where
  "try_saved [] available w = (Inr False, w)"
| "try_saved (saved_net # rest) available w =
     (case try_available (net_ssid saved_net) available w of
        (Inl e, w') \<Rightarrow> (Inl e, w')
      | (Inr True, w') \<Rightarrow> (Inr True, w')
      | (Inr False, w') \<Rightarrow> try_saved rest available w')"

definition auto_connect :: "world \<Rightarrow> (error + bool) \<times> world" where
  "auto_connect w =
     (case get_current_connection w of
        (current, w1) \<Rightarrow>
          if truthy current then (Inr True, w1)
          else (case scan_networks w1 of
                  (available, w2) \<Rightarrow>
                    (case get_saved_networks w2 of
                       Inl e \<Rightarrow> (Inl e, w2)
                     | Inr saved \<Rightarrow> try_saved saved available w2)))"

section \<open>Notions used to state the properties\<close>

text \<open>
  These are written from the words of the specification, not from the code. Recency: the
  time of last use, 0 for a record that has no timestamp.
\<close>

definition recency :: "network \<Rightarrow> real" where
  "recency n = (case last_used n of Some (Num t) \<Rightarrow> t | _ \<Rightarrow> 0)"

text \<open>The store has the persisted layout: a timestamp, where present, is a number.\<close>

definition numeric_stamps :: "network list \<Rightarrow> bool" where
  "numeric_stamps store =
     list_all (\<lambda>n. case last_used n of None \<Rightarrow> True | Some v \<Rightarrow> is_Num v) store"

text \<open>
  The stored networks in descending order of recency, networks of equal recency in the
  order of the store.
\<close>

definition recency_order :: "network list \<Rightarrow> network list" where
  "recency_order store = rev (sort_key recency (rev store))"

text \<open>The connect command for an ssid and an optional credential.\<close>

definition connect_argv :: "string \<Rightarrow> string option \<Rightarrow> argv" where
  "connect_argv s pw =
     (case pw of
        None \<Rightarrow> [''nmcli'', ''dev'', ''wifi'', ''connect'', s]
      | Some p \<Rightarrow>
          if p = [] then [''nmcli'', ''dev'', ''wifi'', ''connect'', s]
          else [''nmcli'', ''dev'', ''wifi'', ''connect'', s, ''password'', p])"

text \<open>The credential stored for an ssid: that of its first record in the given order.\<close>

definition stored_password :: "network list \<Rightarrow> string \<Rightarrow> string option" where
  "stored_password saved s =
     (case find (\<lambda>n. net_ssid n = s) saved of None \<Rightarrow> None | Some n \<Rightarrow> password n)"

text \<open>
  The operating system accepts a command issued after the given history: it runs and ends
  with exit code 0.
\<close>

definition accepted :: "world \<Rightarrow> argv list \<Rightarrow> argv \<Rightarrow> bool" where
  "accepted w history cmd =
     (case os_reply w history cmd of None \<Rightarrow> False | Some r \<Rightarrow> returncode r = 0)"

text \<open>
  A saved network has a live match: its ssid is in the scan that auto-connect performs after
  its query for the active network.
\<close>

definition live :: "world \<Rightarrow> network \<Rightarrow> bool" where
  "live w n \<longleftrightarrow>
     net_ssid n \<in> ssid ` set (fst (scan_networks (snd (get_current_connection w))))"

text \<open>
  The known candidates of auto-connect, in recency order, and the connect commands for
  them, each with the credential stored for its ssid.
\<close>

definition candidates :: "world \<Rightarrow> network list" where
  "candidates w = filter (live w) (recency_order (networks (load_config w)))"

definition attempt_commands :: "world \<Rightarrow> argv list" where
  "attempt_commands w =
     map (\<lambda>n. connect_argv (net_ssid n)
                (stored_password (recency_order (networks (load_config w))) (net_ssid n)))
       (candidates w)"

text \<open>
  The invariant of the deduplication loop. After the entries \<open>seen\<close>, the entry kept
  for a key is the earliest entry of that ssid among those with its signal value, and no
  entry of that ssid has a greater value.
\<close>

definition kept_ok :: "scan_entry list \<Rightarrow> string \<Rightarrow> scan_entry \<Rightarrow> bool" where
  "kept_ok seen k e \<longleftrightarrow>
     ssid e = k \<and>
     find (\<lambda>n. ssid n = k \<and> py_int (signal n) = py_int (signal e)) seen = Some e \<and>
     (\<forall>n \<in> set seen. ssid n = k \<longrightarrow>
        n = e \<or> (\<exists>a b. py_int (signal n) = Some a \<and> py_int (signal e) = Some b \<and> a \<le> b))"

definition dedup_inv :: "scan_entry list \<Rightarrow> (string \<times> scan_entry) list \<Rightarrow> bool" where
  "dedup_inv seen u \<longleftrightarrow>
     distinct (map fst u) \<and> dom (map_of u) = ssid ` set seen \<and>
     (\<forall>k e. map_of u k = Some e \<longrightarrow> kept_ok seen k e)"

text \<open>
  What a run on the world \<open>w\<close> may have done to the state: nothing but issuing
  commands, or ending in a successful \<open>connect_to_network\<close> that started from the
  store of \<open>w\<close>.
\<close>

definition store_effect :: "world \<Rightarrow> (error + bool) \<times> world \<Rightarrow> bool" where
  "store_effect w res \<longleftrightarrow>
     (\<exists>l. snd res = w\<lparr>os_log := l\<rparr>) \<or>
     (fst res = Inr True \<and>
      (\<exists>s pw l. fst (connect_to_network s pw (w\<lparr>os_log := l\<rparr>)) \<and>
         snd res = snd (connect_to_network s pw (w\<lparr>os_log := l\<rparr>))))"

section \<open>Concrete worlds\<close>

text \<open>
  A world with a writable store and an operating system that answers the query for the
  active network with \<open>active_out\<close>, the scan with \<open>scan_reply\<close>, and every other
  command with the exit code \<open>connect_rc\<close> gives it.
\<close>

definition lab_world ::
  "config option \<Rightarrow> string \<Rightarrow> proc_result option \<Rightarrow> (argv \<Rightarrow> int) \<Rightarrow> world" where
  "lab_world cfg active_out scan_reply connect_rc =
     \<lparr>config_file = cfg, fs_write = Written, clock = 1000, os_log = [],
      os_reply = (\<lambda>history cmd.
        if cmd = active_argv then Some \<lparr>returncode = 0, stdout = active_out, stderr = []\<rparr>
        else if cmd = scan_argv then scan_reply
        else Some \<lparr>returncode = connect_rc cmd, stdout = [], stderr = []\<rparr>)\<rparr>"

definition net_A :: network where
  "net_A = \<lparr>net_ssid = ''A'', password = None, last_used = Some (Num 200)\<rparr>"

definition net_B :: network where
  "net_B = \<lparr>net_ssid = ''B'', password = Some ''pb'', last_used = Some (Num 100)\<rparr>"

definition store_B_A :: "config option" where
  "store_B_A = Some \<lparr>networks = [net_B, net_A], last_connected = None\<rparr>"

text \<open>The scan lists B with signal 90 before A with signal 40.\<close>

definition scan_B90_A40 :: "proc_result option" where
  "scan_B90_A40 =
     Some \<lparr>returncode = 0, stdout = ''B:WPA2:90'' @ [newline] @ ''A::40'', stderr = []\<rparr>"

definition world_A_fails :: world where
  "world_A_fails =
     lab_world store_B_A [] scan_B90_A40 (\<lambda>cmd. if cmd = connect_argv ''A'' None then 1 else 0)"

definition world_all_fail :: world where
  "world_all_fail = lab_world store_B_A [] scan_B90_A40 (\<lambda>cmd. 1)"

definition world_all_succeed :: world where
  "world_all_succeed = lab_world store_B_A [] scan_B90_A40 (\<lambda>cmd. 0)"

text \<open>The same, with a configuration file that cannot be opened for writing.\<close>

definition world_read_only :: world where
  "world_read_only = world_all_succeed\<lparr>fs_write := Refused\<rparr>"

text \<open>The same, with a write that fails after the file was opened.\<close>

definition world_disk_full :: world where
  "world_disk_full = world_all_succeed\<lparr>fs_write := Truncated\<rparr>"

definition world_connect_ok :: world where
  "world_connect_ok = lab_world (Some default_config) [] None (\<lambda>cmd. 0)"

definition world_connect_refused :: world where
  "world_connect_refused = lab_world store_B_A [] None (\<lambda>cmd. 10)"

definition net_Home :: network where
  "net_Home = \<lparr>net_ssid = ''Home'', password = Some ''secret'', last_used = Some (Num 5)\<rparr>"

definition scan_Home55 :: "proc_result option" where
  "scan_Home55 = Some \<lparr>returncode = 0, stdout = ''Home:WPA2:55'', stderr = []\<rparr>"

text \<open>The active row of the listing has an empty ssid.\<close>

definition world_active_unnamed :: world where
  "world_active_unnamed =
     lab_world (Some \<lparr>networks = [net_Home], last_connected = Some ''Home''\<rparr>)
       ''yes:'' scan_Home55 (\<lambda>cmd. 0)"

definition world_active_Home :: world where
  "world_active_Home =
     lab_world (Some \<lparr>networks = [net_Home], last_connected = Some ''Home''\<rparr>)
       (''no:Cafe'' @ [newline] @ ''yes:Home'') scan_Home55 (\<lambda>cmd. 0)"

text \<open>A store with a record without timestamp inserted before two old ones.\<close>

definition world_old_stamps :: world where
  "world_old_stamps =
     lab_world
       (Some \<lparr>networks =
                [\<lparr>net_ssid = ''Guest'', password = None, last_used = None\<rparr>,
                 \<lparr>net_ssid = ''Epoch'', password = None, last_used = Some (Num 0)\<rparr>,
                 \<lparr>net_ssid = ''Old'', password = None, last_used = Some (Num (- 5))\<rparr>],
              last_connected = None\<rparr>)
       [] None (\<lambda>cmd. 0)"

definition world_guest_first :: world where
  "world_guest_first =
     lab_world
       (Some \<lparr>networks =
                [\<lparr>net_ssid = ''Guest'', password = None, last_used = None\<rparr>, net_Home],
              last_connected = None\<rparr>)
       [] None (\<lambda>cmd. 0)"

text \<open>A store written by hand, with a null timestamp.\<close>

definition world_null_stamp :: world where
  "world_null_stamp =
     lab_world
       (Some \<lparr>networks =
                [net_Home, \<lparr>net_ssid = ''Guest'', password = None, last_used = Some Null\<rparr>],
              last_connected = None\<rparr>)
       [] scan_Home55 (\<lambda>cmd. 0)"

definition world_scan_exit :: "int \<Rightarrow> world" where
  "world_scan_exit code =
     lab_world None []
       (Some \<lparr>returncode = code, stdout = ''Home:WPA2:70'' @ [newline], stderr = ''Error''\<rparr>)
       (\<lambda>cmd. 0)"

text \<open>The listing command fails with exit code 10 and prints nothing.\<close>

definition world_scan_silent :: world where
  "world_scan_silent =
     lab_world None [] (Some \<lparr>returncode = 10, stdout = [], stderr = ''Error''\<rparr>) (\<lambda>cmd. 0)"

definition world_scan_raises :: world where
  "world_scan_raises = lab_world None [] None (\<lambda>cmd. 0)"

text \<open>
  A listing in which one network name contains a colon, which the terse output writes
  with a backslash before it.
\<close>

definition listing_colon_name :: string where
  "listing_colon_name =
     ''Home:WPA2:70'' @ [newline] @ ''Cafe'' @ [CHR 0x5C] @ '':Bar:WPA2:60'' @ [newline]"

definition world_colon_name :: world where
  "world_colon_name =
     lab_world None []
       (Some \<lparr>returncode = 0, stdout = listing_colon_name, stderr = []\<rparr>) (\<lambda>cmd. 0)"

text \<open>Two access points of one network, and a network name with a colon.\<close>

definition listing_two_homes :: string where
  "listing_two_homes =
     ''Home:WPA2:40'' @ [newline] @ ''Home:WPA2:70'' @ [newline] @
     ''Lab'' @ [CHR 0x5C] @ '':5G:WPA2:60'' @ [newline]"

definition world_two_homes :: world where
  "world_two_homes =
     lab_world None []
       (Some \<lparr>returncode = 0, stdout = listing_two_homes, stderr = []\<rparr>) (\<lambda>cmd. 0)"

text \<open>A weaker network first, then two lines for Home with the same signal.\<close>

definition tie_reply :: proc_result where
  "tie_reply =
     \<lparr>returncode = 0,
      stdout = ''X:WPA2:10'' @ [newline] @ ''Home:WPA2:70'' @ [newline] @ ''Home:WEP:70'' @ [newline],
      stderr = []\<rparr>"

definition world_tie :: world where
  "world_tie = lab_world None [] (Some tie_reply) (\<lambda>cmd. 0)"

section \<open>Frame lemmas\<close>

lemma save_network_frame:
  "os_log (save_network s pw w) = os_log w"
  "os_reply (save_network s pw w) = os_reply w"
  "clock (save_network s pw w) = clock w"
  "fs_write (save_network s pw w) = fs_write w"
  by (simp_all add: save_network_def save_config_def Let_def split: write_outcome.splits)

lemma connect_to_network_cases:
  "connect_to_network s pw w =
     (case os_reply w (os_log w) (connect_argv s pw) of
        None \<Rightarrow> (False, w\<lparr>os_log := os_log w @ [connect_argv s pw]\<rparr>)
      | Some r \<Rightarrow>
          if returncode r = 0
          then (True, save_network s pw (w\<lparr>os_log := os_log w @ [connect_argv s pw]\<rparr>))
          else (False, w\<lparr>os_log := os_log w @ [connect_argv s pw]\<rparr>))"
  by (simp add: connect_to_network_def connect_argv_def connect_open_argv_def
      connect_password_argv_def subprocess_run_def split: option.splits)

lemma connect_to_network_log:
  "os_log (snd (connect_to_network s pw w)) = os_log w @ [connect_argv s pw]"
  by (simp add: connect_to_network_cases save_network_frame split: option.splits)

lemma connect_to_network_accepted:
  "fst (connect_to_network s pw w) = accepted w (os_log w) (connect_argv s pw)"
  by (simp add: connect_to_network_cases accepted_def split: option.splits)

lemma connect_to_network_failed:
  "\<not> fst (connect_to_network s pw w) \<Longrightarrow>
   snd (connect_to_network s pw w) = w\<lparr>os_log := os_log w @ [connect_argv s pw]\<rparr>"
  by (simp add: connect_to_network_cases split: option.splits if_splits)

lemma connect_to_network_log_irrelevant:
  "connect_to_network s pw w = connect_to_network s pw (w\<lparr>os_log := os_log w\<rparr>)"
  by simp

lemma get_current_connection_world:
  "snd (get_current_connection w) = w\<lparr>os_log := os_log w @ [active_argv]\<rparr>"
  by (simp add: get_current_connection_def subprocess_run_def split: option.splits)

lemma scan_networks_world:
  "snd (scan_networks w) = w\<lparr>os_log := os_log w @ [scan_argv]\<rparr>"
  by (simp add: scan_networks_def subprocess_run_def split: option.splits)

lemma scan_networks_result:
  "fst (scan_networks w) =
     (case os_reply w (os_log w) scan_argv of
        None \<Rightarrow> []
      | Some r \<Rightarrow> (case parse_scan (stdout r) of None \<Rightarrow> [] | Some nets \<Rightarrow> nets))"
  by (simp add: scan_networks_def subprocess_run_def split: option.splits)

lemma get_saved_networks_log [simp]:
  "get_saved_networks (w\<lparr>os_log := l\<rparr>) = get_saved_networks w"
  by (simp add: get_saved_networks_def load_config_def)

lemma load_config_log [simp]: "load_config (w\<lparr>os_log := l\<rparr>) = load_config w"
  by (simp add: load_config_def)

lemma accepted_log [simp]: "accepted (w\<lparr>os_log := l\<rparr>) = accepted w"
  by (simp add: accepted_def fun_eq_iff)

section \<open>Sorting in reverse\<close>

lemma sorted_reverse_sorted:
  "sorted_wrt (\<lambda>a b. k b \<le> k a) (sorted_reverse k xs)"
proof -
  have "sorted (map k (sort_key k (rev xs)))" by (rule sorted_sort_key)
  then have "sorted_wrt (\<lambda>a b. k a \<le> k b) (sort_key k (rev xs))"
    by (simp add: sorted_map)
  then show ?thesis
    by (simp add: sorted_reverse_def sorted_wrt_rev)
qed

lemma sorted_reverse_mset: "mset (sorted_reverse k xs) = mset xs"
  by (simp add: sorted_reverse_def)

lemma sorted_reverse_set: "set (sorted_reverse k xs) = set xs"
  by (simp add: sorted_reverse_def)

lemma sorted_reverse_distinct_map:
  "distinct (map f xs) \<Longrightarrow> distinct (map f (sorted_reverse k xs))"
  by (simp add: distinct_map sorted_reverse_def)

lemma sorted_reverse_stable:
  "filter (\<lambda>y. k y = c) (sorted_reverse k xs) = filter (\<lambda>y. k y = c) xs"
proof -
  have "filter (\<lambda>y. k y = c) (sorted_reverse k xs) =
      rev (filter (\<lambda>y. k y = c) (sort_key k (rev xs)))"
    by (simp add: sorted_reverse_def rev_filter)
  also have "\<dots> = rev (filter (\<lambda>y. k y = c) (rev xs))"
    by (simp only: sort_key_stable)
  also have "\<dots> = filter (\<lambda>y. k y = c) xs"
    by (simp add: rev_filter)
  finally show ?thesis .
qed

lemma insort_key_agree:
  "f x = g x \<Longrightarrow> \<forall>y \<in> set ys. f y = g y \<Longrightarrow> insort_key f x ys = insort_key g x ys"
  by (induction ys) auto

lemma sort_key_agree:
  "\<forall>x \<in> set xs. f x = g x \<Longrightarrow> sort_key f xs = sort_key g xs"
proof (induction xs)
  case Nil
  then show ?case by simp
next
  case (Cons x xs)
  then have "sort_key f xs = sort_key g xs" by simp
  moreover from Cons.prems have "insort_key f x (sort_key g xs) = insort_key g x (sort_key g xs)"
    by (intro insort_key_agree) simp_all
  ultimately show ?case by simp
qed

lemma recency_order_sorted_reverse: "recency_order xs = sorted_reverse recency xs"
  by (simp add: recency_order_def sorted_reverse_def)

text \<open>On a store of the persisted layout the sort does not raise, and sorts by recency.\<close>

lemma get_saved_networks_numeric:
  assumes "numeric_stamps (networks (load_config w))"
  shows "get_saved_networks w = Inr (recency_order (networks (load_config w)))"
proof -
  let ?nets = "networks (load_config w)"
  have key: "is_Num (last_used_or_0 x) \<and> num_of (last_used_or_0 x) = recency x"
    if "x \<in> set ?nets" for x
  proof -
    from assms that have "case last_used x of None \<Rightarrow> True | Some v \<Rightarrow> is_Num v"
      by (simp add: numeric_stamps_def list_all_iff)
    then show ?thesis
      by (auto simp: last_used_or_0_def recency_def split: option.splits stamp.splits)
  qed
  show ?thesis
  proof (cases "length ?nets < 2")
    case True
    then have "?nets = [] \<or> (\<exists>x. ?nets = [x])"
      by (cases ?nets) (auto simp: length_Suc_conv)
    then have "recency_order ?nets = ?nets"
      by (auto simp: recency_order_def)
    with True show ?thesis by (simp add: get_saved_networks_def)
  next
    case False
    from key have all: "list_all (\<lambda>x. is_Num (last_used_or_0 x)) ?nets"
      by (simp add: list_all_iff)
    from key have "sort_key (\<lambda>x. num_of (last_used_or_0 x)) (rev ?nets) = sort_key recency (rev ?nets)"
      by (intro sort_key_agree) simp
    then have "sorted_reverse (\<lambda>x. num_of (last_used_or_0 x)) ?nets = recency_order ?nets"
      by (simp add: sorted_reverse_def recency_order_def)
    with False all show ?thesis by (simp add: get_saved_networks_def)
  qed
qed

section \<open>The connector\<close>

text \<open>
  C9. \<open>connect_to_network\<close> passes a password argument exactly when the credential is a
  non-empty string: with no credential or the empty string it issues the open-network
  command, with a non-empty credential it issues the command with \<open>password\<close> and the
  credential. \<open>connect_to_saved\<close> passes the stored password on to it unchanged.
\<close>

theorem connect_password_iff_nonempty:
  "(cred = None \<or> cred = Some [] \<longrightarrow>
      os_log (snd (connect_to_network s cred w)) =
        os_log w @ [[''nmcli'', ''dev'', ''wifi'', ''connect'', s]]) \<and>
   (\<forall>p. cred = Some p \<and> p \<noteq> [] \<longrightarrow>
      os_log (snd (connect_to_network s cred w)) =
        os_log w @ [[''nmcli'', ''dev'', ''wifi'', ''connect'', s, ''password'', p]]) \<and>
   (\<forall>saved n. get_saved_networks w = Inr saved \<and>
      find (\<lambda>n. net_ssid n = s) saved = Some n \<longrightarrow>
      connect_to_saved s w =
        (Inr (fst (connect_to_network s (password n) w)),
         snd (connect_to_network s (password n) w)))"
  by (auto simp: connect_to_network_log connect_argv_def connect_to_saved_def
      split: prod.splits)

text \<open>
  Witness for C9: the empty credential gives the open form, the credential \<open>secret\<close>
  gives the password form, and the saved network B is connected with its stored password.
\<close>

theorem connect_password_iff_nonempty_witness:
  "os_log (snd (connect_to_network ''Home'' (Some []) world_connect_ok)) =
     [[''nmcli'', ''dev'', ''wifi'', ''connect'', ''Home'']] \<and>
   os_log (snd (connect_to_network ''Home'' (Some ''secret'') world_connect_ok)) =
     [[''nmcli'', ''dev'', ''wifi'', ''connect'', ''Home'', ''password'', ''secret'']] \<and>
   connect_to_saved ''B'' world_all_fail =
     (Inr (fst (connect_to_network ''B'' (Some ''pb'') world_all_fail)),
      snd (connect_to_network ''B'' (Some ''pb'') world_all_fail))"
proof -
  have l: "os_log world_connect_ok = []" by code_simp
  have g: "get_saved_networks world_all_fail = Inr [net_A, net_B]" by code_simp
  have f: "find (\<lambda>n. net_ssid n = ''B'') [net_A, net_B] = Some net_B" by code_simp
  have p: "password net_B = Some ''pb''" by code_simp
  from connect_password_iff_nonempty[of "Some []" "''Home''" world_connect_ok]
    connect_password_iff_nonempty[of "Some ''secret''" "''Home''" world_connect_ok] l
  have 1: "os_log (snd (connect_to_network ''Home'' (Some []) world_connect_ok)) =
      [[''nmcli'', ''dev'', ''wifi'', ''connect'', ''Home'']]"
    and 2: "os_log (snd (connect_to_network ''Home'' (Some ''secret'') world_connect_ok)) =
      [[''nmcli'', ''dev'', ''wifi'', ''connect'', ''Home'', ''password'', ''secret'']]"
    by simp_all
  from connect_password_iff_nonempty[of None "''B''" world_all_fail] g f
  have "connect_to_saved ''B'' world_all_fail =
     (Inr (fst (connect_to_network ''B'' (password net_B) world_all_fail)),
      snd (connect_to_network ''B'' (password net_B) world_all_fail))"
    by blast
  then have 3: "connect_to_saved ''B'' world_all_fail =
     (Inr (fst (connect_to_network ''B'' (Some ''pb'') world_all_fail)),
      snd (connect_to_network ''B'' (Some ''pb'') world_all_fail))"
    by (simp only: p)
  show ?thesis by (intro conjI 1 2 3)
qed

section \<open>Recency order of the saved networks\<close>

lemma recency_order_props:
  "mset (recency_order xs) = mset xs"
  "sorted_wrt (\<lambda>a b. recency b \<le> recency a) (recency_order xs)"
  "filter (\<lambda>n. recency n = k) (recency_order xs) = filter (\<lambda>n. recency n = k) xs"
  by (simp_all add: recency_order_sorted_reverse sorted_reverse_mset sorted_reverse_sorted
      sorted_reverse_stable)

text \<open>
  C6, counterexample. With a record without timestamp stored before a record with
  timestamp 0 and one with timestamp -5, the record without timestamp comes first in
  \<open>get_saved_networks\<close>, before both records that have a timestamp.
\<close>

theorem get_saved_networks_untimed_last_counterexample:
  "map_sum id (map net_ssid) (get_saved_networks world_old_stamps) =
     Inr [''Guest'', ''Epoch'', ''Old''] \<and>
   map_sum id (map last_used) (get_saved_networks world_old_stamps) =
     Inr [None, Some (Num 0), Some (Num (- 5))]"
  by code_simp

text \<open>
  C6, amended. For every stored state in which every timestamp that is present is a
  number, \<open>get_saved_networks\<close> returns the stored records, each once, in descending
  order of \<open>last_used\<close> where a record without timestamp counts as 0, records of equal
  rank in the order of the store; so every record without timestamp comes after every
  record whose timestamp is greater than 0, whatever the insertion order.
\<close>

theorem get_saved_networks_recency:
  assumes "numeric_stamps (networks (load_config w))"
  shows "\<exists>xs. get_saved_networks w = Inr xs \<and>
           mset xs = mset (networks (load_config w)) \<and>
           sorted_wrt (\<lambda>a b. recency b \<le> recency a) xs \<and>
           (\<forall>k. filter (\<lambda>n. recency n = k) xs =
                filter (\<lambda>n. recency n = k) (networks (load_config w))) \<and>
           (\<forall>i j t. i < length xs \<and> j < length xs \<and>
              last_used (xs ! i) = None \<and> last_used (xs ! j) = Some (Num t) \<and> 0 < t \<longrightarrow>
              j < i)"
proof -
  let ?xs = "recency_order (networks (load_config w))"
  have srt: "sorted_wrt (\<lambda>a b. recency b \<le> recency a) ?xs"
    by (rule recency_order_props)
  have "j < i" if h: "i < length ?xs" "j < length ?xs" "last_used (?xs ! i) = None"
      "last_used (?xs ! j) = Some (Num t)" "0 < t" for i j t
  proof (rule ccontr)
    assume "\<not> j < i"
    moreover from h have "i \<noteq> j" by auto
    ultimately have "i < j" by simp
    with srt h(2) have "recency (?xs ! j) \<le> recency (?xs ! i)"
      by (simp add: sorted_wrt_iff_nth_less)
    with h show False by (simp add: recency_def)
  qed
  with srt get_saved_networks_numeric[OF assms] recency_order_props(1,3) show ?thesis
    by blast
qed

text \<open>
  Witness for C6 amended: the record without timestamp was stored first and comes out
  second, after the record with timestamp 5.
\<close>

theorem get_saved_networks_recency_witness:
  "numeric_stamps (networks (load_config world_guest_first)) \<and>
   map net_ssid (networks (load_config world_guest_first)) = [''Guest'', ''Home''] \<and>
   map_sum id (map net_ssid) (get_saved_networks world_guest_first) =
     Inr [''Home'', ''Guest'']"
proof -
  have n: "numeric_stamps (networks (load_config world_guest_first))" by code_simp
  have i: "map net_ssid (networks (load_config world_guest_first)) = [''Guest'', ''Home'']"
    by code_simp
  have g: "map_sum id (map net_ssid) (get_saved_networks world_guest_first) =
      Inr [''Home'', ''Guest'']"
    by code_simp
  from get_saved_networks_recency[OF n] n i g show ?thesis by simp
qed

text \<open>
  Outside that layout the call itself can fail: with two records of which one has a null
  timestamp the sort raises, and \<open>auto_connect\<close> ends with that exception after the
  scan, without any attempt.
\<close>

lemma get_saved_networks_null_raises:
  "get_saved_networks world_null_stamp = Inl TypeError \<and>
   fst (auto_connect world_null_stamp) = Inl TypeError \<and>
   os_log (snd (auto_connect world_null_stamp)) = [active_argv, scan_argv]"
  by code_simp

section \<open>The deduplication loop\<close>

lemma map_of_dict_set: "map_of (dict_set k v u) = (map_of u)(k \<mapsto> v)"
  by (induction u) (auto simp: fun_eq_iff)

lemma dict_set_keys:
  "map fst (dict_set k v u) = (if k \<in> fst ` set u then map fst u else map fst u @ [k])"
  by (induction u) auto

lemma distinct_dict_set: "distinct (map fst u) \<Longrightarrow> distinct (map fst (dict_set k v u))"
  by (simp add: dict_set_keys)

lemma find_snoc:
  "find P (xs @ [x]) =
     (case find P xs of None \<Rightarrow> (if P x then Some x else None) | Some y \<Rightarrow> Some y)"
  by (induction xs) auto

lemma kept_ok_other:
  "kept_ok seen k e \<Longrightarrow> ssid n \<noteq> k \<Longrightarrow> kept_ok (seen @ [n]) k e"
  by (auto simp: kept_ok_def find_snoc)

lemma kept_ok_first:
  assumes "ssid n \<notin> ssid ` set seen"
  shows "kept_ok (seen @ [n]) (ssid n) n"
proof -
  from assms have no: "\<forall>m \<in> set seen. ssid m \<noteq> ssid n" by (metis image_eqI)
  then have "find (\<lambda>m. ssid m = ssid n \<and> py_int (signal m) = py_int (signal n)) seen = None"
    by (auto simp: find_None_iff)
  with no show ?thesis
    by (auto simp: kept_ok_def find_snoc)
qed

lemma kept_ok_weaker:
  "kept_ok seen (ssid n) old \<Longrightarrow> py_int (signal n) = Some a \<Longrightarrow>
   py_int (signal old) = Some b \<Longrightarrow> a \<le> b \<Longrightarrow> kept_ok (seen @ [n]) (ssid n) old"
  by (auto simp: kept_ok_def find_snoc)

lemma kept_ok_stronger:
  assumes "kept_ok seen (ssid n) old" "py_int (signal n) = Some a"
    "py_int (signal old) = Some b" "b < a"
  shows "kept_ok (seen @ [n]) (ssid n) n"
proof -
  have below: "\<exists>c. py_int (signal m) = Some c \<and> c \<le> b" if "m \<in> set seen" "ssid m = ssid n" for m
    using assms(1,3) that by (auto simp: kept_ok_def)
  have "find (\<lambda>m. ssid m = ssid n \<and> py_int (signal m) = py_int (signal n)) seen = None"
    using below assms(2,4) by (fastforce simp: find_None_iff)
  moreover have "m = n \<or> (\<exists>c d. py_int (signal m) = Some c \<and> py_int (signal n) = Some d \<and> c \<le> d)"
    if "m \<in> set seen" "ssid m = ssid n" for m
    using below[OF that] assms(2,4) by auto
  ultimately show ?thesis
    by (auto simp: kept_ok_def find_snoc)
qed

lemma kept_ok_member: "kept_ok seen k e \<Longrightarrow> e \<in> set seen"
  by (auto simp: kept_ok_def find_Some_iff)

lemma kept_ok_max:
  "kept_ok seen k e \<Longrightarrow> n \<in> set seen \<Longrightarrow> ssid n = k \<Longrightarrow> signal_key n \<le> signal_key e"
  by (auto simp: kept_ok_def signal_key_def)

lemma unique_step_inv:
  assumes "unique_step n u = Some u'" and "dedup_inv seen u"
  shows "dedup_inv (seen @ [n]) u'"
proof (cases "map_of u (ssid n)")
  case None
  with assms(1) have u': "u' = dict_set (ssid n) n u" by (simp add: unique_step_def)
  from assms(2) have "dom (map_of u) = ssid ` set seen" by (simp add: dedup_inv_def)
  with None have fresh: "ssid n \<notin> ssid ` set seen" by (metis domIff)
  show ?thesis
    unfolding dedup_inv_def
  proof (intro conjI allI impI)
    show "distinct (map fst u')" using assms(2) by (simp add: u' distinct_dict_set dedup_inv_def)
    show "dom (map_of u') = ssid ` set (seen @ [n])"
      using assms(2) by (auto simp: u' map_of_dict_set dedup_inv_def)
    fix k e assume "map_of u' k = Some e"
    then show "kept_ok (seen @ [n]) k e"
      using assms(2) fresh
      by (cases "k = ssid n") (auto simp: u' map_of_dict_set dedup_inv_def kept_ok_first kept_ok_other)
  qed
next
  case (Some old)
  with assms(1) obtain a b where a: "py_int (signal n) = Some a" and b: "py_int (signal old) = Some b"
    and u': "u' = (if a > b then dict_set (ssid n) n u else u)"
    by (auto simp: unique_step_def split: option.splits if_splits)
  from assms(2) have "dom (map_of u) = ssid ` set seen" by (simp add: dedup_inv_def)
  with Some have known: "ssid n \<in> ssid ` set seen" by (metis domI)
  from Some assms(2) have old: "kept_ok seen (ssid n) old"
    by (simp add: dedup_inv_def)
  show ?thesis
    unfolding dedup_inv_def
  proof (intro conjI allI impI)
    show "distinct (map fst u')" using assms(2) by (simp add: u' distinct_dict_set dedup_inv_def)
    show "dom (map_of u') = ssid ` set (seen @ [n])"
      using assms(2) known by (auto simp: u' map_of_dict_set dedup_inv_def)
    fix k e assume m: "map_of u' k = Some e"
    show "kept_ok (seen @ [n]) k e"
    proof (cases "k = ssid n")
      case False
      with m assms(2) show ?thesis
        by (auto simp: u' map_of_dict_set dedup_inv_def kept_ok_other split: if_splits)
    next
      case True
      show ?thesis
      proof (cases "b < a")
        case True
        with m \<open>k = ssid n\<close> have "e = n" by (simp add: u' map_of_dict_set)
        with kept_ok_stronger[OF old a b True] \<open>k = ssid n\<close> show ?thesis by simp
      next
        case False
        with m \<open>k = ssid n\<close> Some have "e = old" by (simp add: u')
        with kept_ok_weaker[OF old a b] False \<open>k = ssid n\<close> show ?thesis by simp
      qed
    qed
  qed
qed

lemma unique_loop_inv:
  "unique_loop ns u = Some u' \<Longrightarrow> dedup_inv seen u \<Longrightarrow> dedup_inv (seen @ ns) u'"
proof (induction ns arbitrary: seen u)
  case Nil
  then show ?case by simp
next
  case (Cons n ns)
  from Cons.prems(1) obtain u1 where s: "unique_step n u = Some u1" and l: "unique_loop ns u1 = Some u'"
    by (auto split: option.splits)
  from Cons.IH[OF l unique_step_inv[OF s Cons.prems(2)]] show ?case by simp
qed

lemma dedup_inv_empty: "dedup_inv [] []"
  by (simp add: dedup_inv_def)

lemma unique_loop_result:
  "unique_loop ns [] = Some u \<Longrightarrow> dedup_inv ns u"
  using unique_loop_inv[OF _ dedup_inv_empty] by simp

lemma dedup_inv_values:
  assumes "dedup_inv seen u"
  shows "map ssid (map snd u) = map fst u"
    and "\<forall>e \<in> set (map snd u). kept_ok seen (ssid e) e"
proof -
  have each: "kept_ok seen k e" if "(k, e) \<in> set u" for k e
  proof -
    from assms have "distinct (map fst u)" by (simp add: dedup_inv_def)
    with that have "map_of u k = Some e" by simp
    with assms show ?thesis by (simp add: dedup_inv_def)
  qed
  have key: "ssid (snd p) = fst p" if "p \<in> set u" for p
    using each[of "fst p" "snd p"] that by (simp add: kept_ok_def)
  then show "map ssid (map snd u) = map fst u" by simp
  have "kept_ok seen (ssid (snd p)) (snd p)" if "p \<in> set u" for p
    using each[of "fst p" "snd p"] key[OF that] that by simp
  then show "\<forall>e \<in> set (map snd u). kept_ok seen (ssid e) e"
    by auto
qed

lemma dedup_inv_keys: "dedup_inv seen u \<Longrightarrow> fst ` set u = ssid ` set seen"
  by (auto simp: dedup_inv_def dom_map_of_conv_image_fst)

section \<open>The result of a scan\<close>

lemma parse_scan_SomeD:
  assumes "parse_scan out = Some res"
  obtains u where "unique_loop (parse_lines out) [] = Some u"
    and "res = sorted_reverse signal_key (map snd u)"
    and "\<forall>x \<in> set (map snd u). py_int (signal x) \<noteq> None"
  using assms
  by (auto simp: parse_scan_def sort_by_signal_def list_all_iff split: option.splits if_splits)

lemma parse_scan_props:
  assumes "parse_scan out = Some res"
  shows "distinct (map ssid res)"
    and "ssid ` set res = ssid ` set (parse_lines out)"
    and "\<forall>e \<in> set res. kept_ok (parse_lines out) (ssid e) e"
    and "\<forall>e \<in> set res. py_int (signal e) \<noteq> None"
    and "sorted_wrt (\<lambda>a b. signal_key b \<le> signal_key a) res"
proof -
  from assms obtain u where u: "unique_loop (parse_lines out) [] = Some u"
    and res: "res = sorted_reverse signal_key (map snd u)"
    and num: "\<forall>x \<in> set (map snd u). py_int (signal x) \<noteq> None"
    by (rule parse_scan_SomeD)
  from unique_loop_result[OF u] have inv: "dedup_inv (parse_lines out) u" .
  from inv have "distinct (map fst u)" by (simp add: dedup_inv_def)
  then have "distinct (map ssid (map snd u))" by (simp only: dedup_inv_values(1)[OF inv])
  then show "distinct (map ssid res)" unfolding res by (rule sorted_reverse_distinct_map)
  have "ssid ` set (map snd u) = set (map ssid (map snd u))" by (simp only: set_map)
  also have "\<dots> = fst ` set u" by (simp only: dedup_inv_values(1)[OF inv] set_map)
  finally show "ssid ` set res = ssid ` set (parse_lines out)"
    by (simp only: res sorted_reverse_set dedup_inv_keys[OF inv])
  from dedup_inv_values(2)[OF inv] show "\<forall>e \<in> set res. kept_ok (parse_lines out) (ssid e) e"
    by (simp only: res sorted_reverse_set)
  from num show "\<forall>e \<in> set res. py_int (signal e) \<noteq> None"
    by (simp only: res sorted_reverse_set)
  show "sorted_wrt (\<lambda>a b. signal_key b \<le> signal_key a) res"
    unfolding res by (rule sorted_reverse_sorted)
qed

lemma scan_networks_distinct: "distinct (map ssid (fst (scan_networks w)))"
  by (auto simp: scan_networks_result parse_scan_props(1) split: option.splits)

text \<open>A parsed line whose signal field is no integer literal empties the whole result.\<close>

lemma parse_scan_bad_signal:
  assumes "n \<in> set (parse_lines out)" and "py_int (signal n) = None"
  shows "parse_scan out = None"
proof (rule ccontr)
  assume "parse_scan out \<noteq> None"
  then obtain res where p: "parse_scan out = Some res" by auto
  from assms(1) parse_scan_props(2)[OF p] obtain e where e: "e \<in> set res" "ssid e = ssid n"
    by (metis image_iff)
  from parse_scan_props(3)[OF p] e have "kept_ok (parse_lines out) (ssid n) e" by auto
  with assms have "n = e" by (auto simp: kept_ok_def)
  with parse_scan_props(4)[OF p] e assms(2) show False by auto
qed

lemma scan_aborts_on_bad_signal:
  "os_reply w (os_log w) scan_argv = Some r \<Longrightarrow> n \<in> set (parse_lines (stdout r)) \<Longrightarrow>
   py_int (signal n) = None \<Longrightarrow> fst (scan_networks w) = []"
  by (simp add: scan_networks_result parse_scan_bad_signal)

lemma unique_step_numeric:
  assumes "dedup_inv seen u" and "\<forall>m \<in> set seen. py_int (signal m) \<noteq> None"
    and "py_int (signal n) \<noteq> None"
  shows "\<exists>u'. unique_step n u = Some u'"
proof (cases "map_of u (ssid n)")
  case None
  then show ?thesis by (simp add: unique_step_def)
next
  case (Some old)
  with assms(1) have "kept_ok seen (ssid n) old" by (simp add: dedup_inv_def)
  then have "old \<in> set seen" by (rule kept_ok_member)
  with assms(2) have "py_int (signal old) \<noteq> None" by simp
  with Some assms(3) show ?thesis by (auto simp: unique_step_def)
qed

lemma unique_loop_numeric:
  "dedup_inv seen u \<Longrightarrow> \<forall>m \<in> set (seen @ ns). py_int (signal m) \<noteq> None \<Longrightarrow>
   \<exists>u'. unique_loop ns u = Some u'"
proof (induction ns arbitrary: seen u)
  case Nil
  then show ?case by simp
next
  case (Cons n ns)
  from Cons.prems have "\<exists>u1. unique_step n u = Some u1"
    by (intro unique_step_numeric[of seen]) auto
  then obtain u1 where s: "unique_step n u = Some u1" ..
  from unique_step_inv[OF s Cons.prems(1)] have "dedup_inv (seen @ [n]) u1" .
  from Cons.IH[OF this] Cons.prems(2) obtain u' where "unique_loop ns u1 = Some u'" by auto
  with s show ?case by simp
qed

lemma parse_scan_numeric:
  assumes "\<forall>m \<in> set (parse_lines out). py_int (signal m) \<noteq> None"
  shows "\<exists>res. parse_scan out = Some res"
proof -
  from unique_loop_numeric[OF dedup_inv_empty, of "parse_lines out"] assms
  obtain u where u: "unique_loop (parse_lines out) [] = Some u" by auto
  from dedup_inv_values(2)[OF unique_loop_result[OF u]]
  have "\<forall>e \<in> set (map snd u). e \<in> set (parse_lines out)"
    by (auto dest: kept_ok_member)
  with assms have "list_all (\<lambda>x. py_int (signal x) \<noteq> None) (map snd u)"
    by (auto simp: list_all_iff)
  with u show ?thesis by (simp add: parse_scan_def sort_by_signal_def)
qed

text \<open>
  When every parsed line has an integer signal field, the scan returns one entry for each
  ssid among the parsed lines, that entry carries the greatest signal seen for its ssid,
  and the list is in descending order of signal.
\<close>

lemma scan_dedup_when_numeric:
  assumes "os_reply w (os_log w) scan_argv = Some r"
    and "\<forall>m \<in> set (parse_lines (stdout r)). py_int (signal m) \<noteq> None"
  shows "distinct (map ssid (fst (scan_networks w))) \<and>
         ssid ` set (fst (scan_networks w)) = ssid ` set (parse_lines (stdout r)) \<and>
         (\<forall>e \<in> set (fst (scan_networks w)).
            e \<in> set (parse_lines (stdout r)) \<and>
            (\<forall>n \<in> set (parse_lines (stdout r)). ssid n = ssid e \<longrightarrow> signal_key n \<le> signal_key e)) \<and>
         sorted_wrt (\<lambda>a b. signal_key b \<le> signal_key a) (fst (scan_networks w))"
proof -
  from parse_scan_numeric[OF assms(2)] obtain res where p: "parse_scan (stdout r) = Some res" ..
  with assms(1) have res: "fst (scan_networks w) = res" by (simp add: scan_networks_result)
  from parse_scan_props(3)[OF p]
  have "e \<in> set (parse_lines (stdout r)) \<and>
        (\<forall>n \<in> set (parse_lines (stdout r)). ssid n = ssid e \<longrightarrow> signal_key n \<le> signal_key e)"
    if "e \<in> set res" for e
    using that by (auto dest: kept_ok_member kept_ok_max)
  with parse_scan_props(1,2,5)[OF p] show ?thesis unfolding res by blast
qed

text \<open>
  C5, at a failing input. The listing has two lines for Home, with signals 40 and 70, and
  a line for a network whose name contains a colon, so that its third field is
  \<open>WPA2\<close>. All three lines are parsed, and the scan returns the empty list: no entry
  for Home with signal 70, none for the other network.
\<close>

theorem scan_dedup_lost_at_colon_name:
  "parse_lines listing_two_homes =
     [\<lparr>ssid = ''Home'', security = ''WPA2'', signal = ''40''\<rparr>,
      \<lparr>ssid = ''Home'', security = ''WPA2'', signal = ''70''\<rparr>,
      \<lparr>ssid = ''Lab'' @ [CHR 0x5C], security = ''5G'', signal = ''WPA2''\<rparr>] \<and>
   fst (scan_networks world_two_homes) = []"
  by code_simp

text \<open>
  C7, at a failing input. The second line of the listing has the signal field
  \<open>WPA2\<close>, which is no number. The scan of the first line alone returns Home; the scan
  of both lines returns the empty list, so the well-formed line is lost too.
\<close>

theorem scan_malformed_line_aborts:
  "parse_lines listing_colon_name =
     [\<lparr>ssid = ''Home'', security = ''WPA2'', signal = ''70''\<rparr>,
      \<lparr>ssid = ''Cafe'' @ [CHR 0x5C], security = ''Bar'', signal = ''WPA2''\<rparr>] \<and>
   py_int ''WPA2'' = None \<and>
   fst (scan_networks (world_scan_exit 0)) =
     [\<lparr>ssid = ''Home'', security = ''WPA2'', signal = ''70''\<rparr>] \<and>
   fst (scan_networks world_colon_name) = []"
  by code_simp

text \<open>
  C8, counterexample. The listing command ends with exit code 1 after printing a line;
  the scan returns the entry parsed from that line.
\<close>

theorem scan_nonzero_exit_counterexample:
  "map_option returncode (os_reply (world_scan_exit 1) (os_log (world_scan_exit 1)) scan_argv) =
     Some 1 \<and>
   fst (scan_networks (world_scan_exit 1)) =
     [\<lparr>ssid = ''Home'', security = ''WPA2'', signal = ''70''\<rparr>]"
  by code_simp

lemma parse_scan_blank: "strip out = [] \<Longrightarrow> parse_scan out = Some []"
  by (simp add: parse_scan_def parse_lines_def List.map_filter_simps parse_line_def
      sort_by_signal_def sorted_reverse_def)

text \<open>
  C8, amended. The scan returns the empty list when the listing command cannot be run or
  times out, and when it printed nothing but whitespace. The exit code is not consulted:
  two runs that print the same text give the same result, whatever their exit codes.
\<close>

theorem scan_ignores_exit_code:
  "(os_reply w (os_log w) scan_argv = None \<longrightarrow> fst (scan_networks w) = []) \<and>
   (\<forall>r. os_reply w (os_log w) scan_argv = Some r \<and> strip (stdout r) = [] \<longrightarrow>
      fst (scan_networks w) = []) \<and>
   (\<forall>r w' r'. os_reply w (os_log w) scan_argv = Some r \<and>
      os_reply w' (os_log w') scan_argv = Some r' \<and> stdout r = stdout r' \<longrightarrow>
      fst (scan_networks w) = fst (scan_networks w'))"
  by (auto simp: scan_networks_def subprocess_run_def parse_scan_blank split: option.splits)

text \<open>
  Witness for C8 amended: a listing command that raises and one that fails silently give
  the empty list; exit codes 1 and 0 with the same output give the same result.
\<close>

theorem scan_ignores_exit_code_witness:
  "os_reply world_scan_raises (os_log world_scan_raises) scan_argv = None \<and>
   fst (scan_networks world_scan_raises) = [] \<and>
   map_option returncode (os_reply world_scan_silent (os_log world_scan_silent) scan_argv) =
     Some 10 \<and>
   fst (scan_networks world_scan_silent) = [] \<and>
   fst (scan_networks (world_scan_exit 1)) = fst (scan_networks (world_scan_exit 0))"
proof -
  have a: "os_reply world_scan_raises (os_log world_scan_raises) scan_argv = None"
    by code_simp
  have b: "os_reply world_scan_silent (os_log world_scan_silent) scan_argv =
      Some \<lparr>returncode = 10, stdout = [], stderr = ''Error''\<rparr>"
    by code_simp
  have c: "os_reply (world_scan_exit 1) (os_log (world_scan_exit 1)) scan_argv =
      Some \<lparr>returncode = 1, stdout = ''Home:WPA2:70'' @ [newline], stderr = ''Error''\<rparr>"
    by code_simp
  have d: "os_reply (world_scan_exit 0) (os_log (world_scan_exit 0)) scan_argv =
      Some \<lparr>returncode = 0, stdout = ''Home:WPA2:70'' @ [newline], stderr = ''Error''\<rparr>"
    by code_simp
  have e: "strip (stdout \<lparr>returncode = 10, stdout = [], stderr = ''Error''\<rparr>) = []"
    by code_simp
  from scan_ignores_exit_code[of world_scan_raises] a
  have 1: "fst (scan_networks world_scan_raises) = []" by simp
  from scan_ignores_exit_code[of world_scan_silent] b e
  have 2: "fst (scan_networks world_scan_silent) = []" by blast
  from scan_ignores_exit_code[of "world_scan_exit 1"] c d
  have 3: "fst (scan_networks (world_scan_exit 1)) = fst (scan_networks (world_scan_exit 0))"
    by (elim conjE allE[of _ "\<lparr>returncode = 1, stdout = ''Home:WPA2:70'' @ [newline], stderr = ''Error''\<rparr>"]
        allE[of _ "world_scan_exit 0"]
        allE[of _ "\<lparr>returncode = 0, stdout = ''Home:WPA2:70'' @ [newline], stderr = ''Error''\<rparr>"])
      simp
  from a b 1 2 3 show ?thesis by simp
qed

text \<open>
  C10. Every entry of the scan result is one of the parsed lines, and no parsed line with
  the same ssid and an equal signal value comes before it in the output. When no signal
  field fails to be an integer, so that the scan is not abandoned, every network of the
  listing has exactly one entry; it is a line with the greatest signal of that network,
  and no line of that network with an equal signal comes before it. So of two lines with
  the same ssid and equal signal values the later one is never the entry kept, and where
  their signal is the greatest of that network the entry kept is the first of them, with
  its security field.
\<close>

theorem scan_tie_keeps_first:
  assumes "os_reply w (os_log w) scan_argv = Some r"
  shows "(\<forall>e \<in> set (fst (scan_networks w)).
            \<exists>i < length (parse_lines (stdout r)).
              parse_lines (stdout r) ! i = e \<and>
              (\<forall>j < length (parse_lines (stdout r)).
                 ssid (parse_lines (stdout r) ! j) = ssid e \<and>
                 py_int (signal (parse_lines (stdout r) ! j)) = py_int (signal e) \<longrightarrow> i \<le> j)) \<and>
         ((\<forall>m \<in> set (parse_lines (stdout r)). py_int (signal m) \<noteq> None) \<longrightarrow>
            (\<forall>n \<in> set (parse_lines (stdout r)).
               \<exists>i < length (parse_lines (stdout r)).
                 ssid (parse_lines (stdout r) ! i) = ssid n \<and>
                 parse_lines (stdout r) ! i \<in> set (fst (scan_networks w)) \<and>
                 (\<forall>e \<in> set (fst (scan_networks w)).
                    ssid e = ssid n \<longrightarrow> e = parse_lines (stdout r) ! i) \<and>
                 (\<forall>j < length (parse_lines (stdout r)).
                    ssid (parse_lines (stdout r) ! j) = ssid n \<longrightarrow>
                    (\<exists>a b. py_int (signal (parse_lines (stdout r) ! j)) = Some a \<and>
                           py_int (signal (parse_lines (stdout r) ! i)) = Some b \<and>
                           a \<le> b \<and> (a = b \<longrightarrow> i \<le> j)))))"
proof (intro conjI ballI impI)
  let ?ns = "parse_lines (stdout r)"
  have first_index: "\<exists>i < length ?ns. ?ns ! i = e \<and>
      (\<forall>j < length ?ns. ssid (?ns ! j) = ssid e \<and>
         py_int (signal (?ns ! j)) = py_int (signal e) \<longrightarrow> i \<le> j)"
    if p: "parse_scan (stdout r) = Some res" and e: "e \<in> set res" for res e
  proof -
    from parse_scan_props(3)[OF p] e have "kept_ok ?ns (ssid e) e" by simp
    then have "find (\<lambda>n. ssid n = ssid e \<and> py_int (signal n) = py_int (signal e)) ?ns = Some e"
      by (simp add: kept_ok_def)
    then obtain i where i: "i < length ?ns" "e = ?ns ! i"
      and first: "\<forall>j < i. \<not> (ssid (?ns ! j) = ssid e \<and> py_int (signal (?ns ! j)) = py_int (signal e))"
      unfolding find_Some_iff by blast
    from first have "\<forall>j < length ?ns. ssid (?ns ! j) = ssid e \<and>
        py_int (signal (?ns ! j)) = py_int (signal e) \<longrightarrow> i \<le> j"
      by (meson not_le)
    with i show ?thesis by blast
  qed
  {
    fix e assume "e \<in> set (fst (scan_networks w))"
    with assms have "e \<in> set (case parse_scan (stdout r) of None \<Rightarrow> [] | Some nets \<Rightarrow> nets)"
      by (simp add: scan_networks_result)
    then obtain res where p: "parse_scan (stdout r) = Some res" and e: "e \<in> set res"
      by (cases "parse_scan (stdout r)") auto
    from first_index[OF p e]
    show "\<exists>i < length ?ns. ?ns ! i = e \<and>
      (\<forall>j < length ?ns. ssid (?ns ! j) = ssid e \<and>
         py_int (signal (?ns ! j)) = py_int (signal e) \<longrightarrow> i \<le> j)" .
  }
  {
    fix n assume num: "\<forall>m \<in> set ?ns. py_int (signal m) \<noteq> None" and n: "n \<in> set ?ns"
    from parse_scan_numeric[OF num] obtain res where p: "parse_scan (stdout r) = Some res" ..
    with assms have res: "fst (scan_networks w) = res" by (simp add: scan_networks_result)
    from n parse_scan_props(2)[OF p] obtain e where e: "e \<in> set res" "ssid e = ssid n"
      by (metis image_iff)
    from first_index[OF p e(1)] obtain i where i: "i < length ?ns" "?ns ! i = e"
      and first: "\<forall>j < length ?ns. ssid (?ns ! j) = ssid e \<and>
         py_int (signal (?ns ! j)) = py_int (signal e) \<longrightarrow> i \<le> j"
      by blast
    from parse_scan_props(1)[OF p] have "inj_on ssid (set res)"
      by (simp add: distinct_map)
    have only: "\<forall>e' \<in> set res. ssid e' = ssid n \<longrightarrow> e' = e"
    proof (intro ballI impI)
      fix e' assume "e' \<in> set res" "ssid e' = ssid n"
      with e \<open>inj_on ssid (set res)\<close> show "e' = e" by (metis inj_onD)
    qed
    from parse_scan_props(3)[OF p] e have k: "kept_ok ?ns (ssid n) e" by auto
    have "\<exists>a b. py_int (signal (?ns ! j)) = Some a \<and> py_int (signal (?ns ! i)) = Some b \<and>
        a \<le> b \<and> (a = b \<longrightarrow> i \<le> j)"
      if j: "j < length ?ns" "ssid (?ns ! j) = ssid n" for j
    proof -
      from j(1) have mem: "?ns ! j \<in> set ?ns" by simp
      with num obtain a where a: "py_int (signal (?ns ! j)) = Some a" by auto
      from kept_ok_member[OF k] num obtain b where b: "py_int (signal e) = Some b" by auto
      from k mem j(2) a b have "a \<le> b" by (auto simp: kept_ok_def)
      moreover have "i \<le> j" if "a = b"
        using first j e(2) a b that by simp
      ultimately show ?thesis using a b i(2) by simp
    qed
    with i e only
    show "\<exists>i < length ?ns. ssid (?ns ! i) = ssid n \<and> ?ns ! i \<in> set (fst (scan_networks w)) \<and>
        (\<forall>e \<in> set (fst (scan_networks w)). ssid e = ssid n \<longrightarrow> e = ?ns ! i) \<and>
        (\<forall>j < length ?ns. ssid (?ns ! j) = ssid n \<longrightarrow>
           (\<exists>a b. py_int (signal (?ns ! j)) = Some a \<and> py_int (signal (?ns ! i)) = Some b \<and>
                  a \<le> b \<and> (a = b \<longrightarrow> i \<le> j)))"
      unfolding res by blast
  }
qed

text \<open>
  Witness for C10: a line for X with signal 10, then two lines for Home with signal 70,
  the first with WPA2, the second with WEP. Home has an entry, it is the first of its two
  lines, and the second is not in the result.
\<close>

theorem scan_tie_keeps_first_witness:
  "os_reply world_tie (os_log world_tie) scan_argv = Some tie_reply \<and>
   parse_lines (stdout tie_reply) =
     [\<lparr>ssid = ''X'', security = ''WPA2'', signal = ''10''\<rparr>,
      \<lparr>ssid = ''Home'', security = ''WPA2'', signal = ''70''\<rparr>,
      \<lparr>ssid = ''Home'', security = ''WEP'', signal = ''70''\<rparr>] \<and>
   \<lparr>ssid = ''Home'', security = ''WPA2'', signal = ''70''\<rparr> \<in> set (fst (scan_networks world_tie)) \<and>
   \<lparr>ssid = ''Home'', security = ''WEP'', signal = ''70''\<rparr> \<notin> set (fst (scan_networks world_tie))"
proof -
  let ?x = "\<lparr>ssid = ''X'', security = ''WPA2'', signal = ''10''\<rparr>"
  let ?a = "\<lparr>ssid = ''Home'', security = ''WPA2'', signal = ''70''\<rparr>"
  let ?b = "\<lparr>ssid = ''Home'', security = ''WEP'', signal = ''70''\<rparr>"
  have r: "os_reply world_tie (os_log world_tie) scan_argv = Some tie_reply" by code_simp
  have ns: "parse_lines (stdout tie_reply) = [?x, ?a, ?b]" by code_simp
  have v: "py_int ''10'' = Some 10" "py_int ''70'' = Some 70" by code_simp+
  have num: "\<forall>m \<in> set (parse_lines (stdout tie_reply)). py_int (signal m) \<noteq> None"
    unfolding ns by (simp add: v)
  from conjunct2[OF scan_tie_keeps_first[OF r]] num
  have every: "\<forall>n \<in> set (parse_lines (stdout tie_reply)).
      \<exists>i < length (parse_lines (stdout tie_reply)).
        ssid (parse_lines (stdout tie_reply) ! i) = ssid n \<and>
        parse_lines (stdout tie_reply) ! i \<in> set (fst (scan_networks world_tie)) \<and>
        (\<forall>e \<in> set (fst (scan_networks world_tie)).
           ssid e = ssid n \<longrightarrow> e = parse_lines (stdout tie_reply) ! i) \<and>
        (\<forall>j < length (parse_lines (stdout tie_reply)).
           ssid (parse_lines (stdout tie_reply) ! j) = ssid n \<longrightarrow>
           (\<exists>a b. py_int (signal (parse_lines (stdout tie_reply) ! j)) = Some a \<and>
                  py_int (signal (parse_lines (stdout tie_reply) ! i)) = Some b \<and>
                  a \<le> b \<and> (a = b \<longrightarrow> i \<le> j)))"
    by (rule mp)
  have "?b \<in> set (parse_lines (stdout tie_reply))" by (simp add: ns)
  from bspec[OF every this] obtain i where len: "i < length (parse_lines (stdout tie_reply))"
    and same: "ssid (parse_lines (stdout tie_reply) ! i) = ssid ?b"
    and kept: "parse_lines (stdout tie_reply) ! i \<in> set (fst (scan_networks world_tie))"
    and only: "\<forall>e \<in> set (fst (scan_networks world_tie)).
        ssid e = ssid ?b \<longrightarrow> e = parse_lines (stdout tie_reply) ! i"
    and order: "\<forall>j < length (parse_lines (stdout tie_reply)).
        ssid (parse_lines (stdout tie_reply) ! j) = ssid ?b \<longrightarrow>
        (\<exists>a b. py_int (signal (parse_lines (stdout tie_reply) ! j)) = Some a \<and>
               py_int (signal (parse_lines (stdout tie_reply) ! i)) = Some b \<and>
               a \<le> b \<and> (a = b \<longrightarrow> i \<le> j))"
    by blast
  from len have "i < 3" unfolding ns by simp
  then have "i = 0 \<or> i = 1 \<or> i = 2" by arith
  moreover have "i \<noteq> 0" using same unfolding ns by (intro notI) simp
  moreover have "i \<noteq> 2"
  proof
    assume i2: "i = 2"
    have "(1::nat) < length (parse_lines (stdout tie_reply))" unfolding ns by simp
    moreover have "ssid (parse_lines (stdout tie_reply) ! 1) = ssid ?b" unfolding ns by simp
    ultimately obtain a b where "py_int (signal (parse_lines (stdout tie_reply) ! 1)) = Some a"
      "py_int (signal (parse_lines (stdout tie_reply) ! i)) = Some b" "a = b \<longrightarrow> i \<le> 1"
      using order by blast
    then show False unfolding ns i2 by (simp add: v)
  qed
  ultimately have i1: "i = 1" by simp
  from kept have a: "?a \<in> set (fst (scan_networks world_tie))" unfolding ns i1 by simp
  have b: "?b \<notin> set (fst (scan_networks world_tie))"
  proof
    assume "?b \<in> set (fst (scan_networks world_tie))"
    with only have "?b = parse_lines (stdout tie_reply) ! i" by simp
    then show False unfolding ns i1 by simp
  qed
  show ?thesis by (intro conjI r ns a b)
qed

section \<open>Auto-connect\<close>

lemma find_ssid_in_saved:
  "n \<in> set saved \<Longrightarrow> \<exists>m. find (\<lambda>x. net_ssid x = net_ssid n) saved = Some m"
  by (cases "find (\<lambda>x. net_ssid x = net_ssid n) saved") (auto simp: find_None_iff)


lemma connect_to_saved_found:
  assumes "get_saved_networks w = Inr saved"
    and "find (\<lambda>x. net_ssid x = s) saved = Some m"
  shows "connect_to_saved s w =
           (Inr (accepted w (os_log w) (connect_argv s (stored_password saved s))),
            snd (connect_to_network s (stored_password saved s) w))"
  using assms
  by (simp add: connect_to_saved_def stored_password_def connect_to_network_accepted[symmetric]
      split: prod.splits)

lemma try_available_no_match:
  "s \<notin> ssid ` set av \<Longrightarrow> try_available s av w = (Inr False, w)"
  by (induction av) auto

text \<open>A scan result has one entry for an ssid, so the inner loop connects at most once.\<close>

lemma try_available_distinct:
  "distinct (map ssid av) \<Longrightarrow>
   try_available s av w = (if s \<in> ssid ` set av then connect_to_saved s w else (Inr False, w))"
proof (induction av)
  case Nil
  then show ?case by simp
next
  case (Cons a avs)
  show ?case
  proof (cases "s = ssid a")
    case True
    with Cons.prems have "s \<notin> ssid ` set avs" by auto
    then have "try_available s avs w' = (Inr False, w')" for w'
      by (rule try_available_no_match)
    with True show ?thesis
      by (cases "connect_to_saved s w") (auto split: sum.splits bool.splits)
  next
    case False
    with Cons show ?thesis by auto
  qed
qed

text \<open>
  The attempts of the outer loop, against the replies of the operating system: the loop
  issues the connect commands of the saved networks with a live match in order, as long as
  they are refused, and ends at the first that is accepted.
\<close>

lemma try_saved_trace:
  assumes "distinct (map ssid av)" and "get_saved_networks w = Inr saved"
    and "set ns \<subseteq> set saved"
    and "cmds = map (\<lambda>n. connect_argv (net_ssid n) (stored_password saved (net_ssid n)))
                 (filter (\<lambda>n. net_ssid n \<in> ssid ` set av) ns)"
  shows "\<exists>b w'. try_saved ns av w = (Inr b, w') \<and>
           (\<not> b \<longrightarrow> w' = w\<lparr>os_log := os_log w @ cmds\<rparr> \<and>
              (\<forall>i < length cmds. \<not> accepted w (os_log w @ take i cmds) (cmds ! i))) \<and>
           (b \<longrightarrow> (\<exists>k < length cmds.
              os_log w' = os_log w @ take (Suc k) cmds \<and>
              (\<exists>s pw. fst (connect_to_network s pw (w\<lparr>os_log := os_log w @ take k cmds\<rparr>)) \<and>
                 w' = snd (connect_to_network s pw (w\<lparr>os_log := os_log w @ take k cmds\<rparr>))) \<and>
              accepted w (os_log w @ take k cmds) (cmds ! k) \<and>
              (\<forall>i < k. \<not> accepted w (os_log w @ take i cmds) (cmds ! i))))"
  using assms(2-4)
proof (induction ns arbitrary: w cmds)
  case Nil
  then show ?case by (intro exI[of _ False] exI[of _ w]) simp
next
  case (Cons n ns)
  let ?P = "\<lambda>n. net_ssid n \<in> ssid ` set av"
  let ?C = "map (\<lambda>n. connect_argv (net_ssid n) (stored_password saved (net_ssid n)))
              (filter ?P ns)"
  from Cons.prems have sub: "set ns \<subseteq> set saved" by simp
  show ?case
  proof (cases "?P n")
    case False
    then have "try_available (net_ssid n) av w = (Inr False, w)"
      by (rule try_available_no_match)
    moreover from False Cons.prems(3) have "cmds = ?C" by simp
    ultimately show ?thesis
      using Cons.IH[OF Cons.prems(1) sub, of cmds] by simp
  next
    case True
    let ?c = "connect_argv (net_ssid n) (stored_password saved (net_ssid n))"
    from True Cons.prems(3) have cmds: "cmds = ?c # ?C" by simp
    from Cons.prems have "n \<in> set saved" by simp
    from find_ssid_in_saved[OF this]
    obtain m where m: "find (\<lambda>x. net_ssid x = net_ssid n) saved = Some m" ..
    from True assms(1) have t: "try_available (net_ssid n) av w =
        (Inr (accepted w (os_log w) ?c),
         snd (connect_to_network (net_ssid n) (stored_password saved (net_ssid n)) w))"
      by (simp add: try_available_distinct connect_to_saved_found[OF Cons.prems(1) m])
    show ?thesis
    proof (cases "accepted w (os_log w) ?c")
      case True
      then have f: "fst (connect_to_network (net_ssid n) (stored_password saved (net_ssid n)) w)"
        by (simp add: connect_to_network_accepted)
      have "try_saved (n # ns) av w =
          (Inr True, snd (connect_to_network (net_ssid n) (stored_password saved (net_ssid n)) w))"
        using t True by simp
      moreover have "\<exists>s pw. fst (connect_to_network s pw (w\<lparr>os_log := os_log w @ take 0 cmds\<rparr>)) \<and>
          snd (connect_to_network (net_ssid n) (stored_password saved (net_ssid n)) w) =
            snd (connect_to_network s pw (w\<lparr>os_log := os_log w @ take 0 cmds\<rparr>))"
        using f by (intro exI[of _ "net_ssid n"] exI[of _ "stored_password saved (net_ssid n)"]) simp
      ultimately show ?thesis
        using True cmds
        by (intro exI[of _ True] exI[of _ "snd (connect_to_network (net_ssid n)
              (stored_password saved (net_ssid n)) w)"] conjI impI exI[of _ "0::nat"])
          (simp_all add: connect_to_network_log)
    next
      case False
      let ?w1 = "w\<lparr>os_log := os_log w @ [?c]\<rparr>"
      from False have "\<not> fst (connect_to_network (net_ssid n) (stored_password saved (net_ssid n)) w)"
        by (simp add: connect_to_network_accepted)
      then have w1: "snd (connect_to_network (net_ssid n) (stored_password saved (net_ssid n)) w) = ?w1"
        by (rule connect_to_network_failed)
      with t False have r: "try_saved (n # ns) av w = try_saved ns av ?w1" by simp
      from Cons.prems(1) have sv1: "get_saved_networks ?w1 = Inr saved" by simp
      from Cons.IH[OF sv1 sub refl] obtain b w' where run: "try_saved ns av ?w1 = (Inr b, w')"
        and fail: "\<not> b \<longrightarrow> w' = ?w1\<lparr>os_log := os_log ?w1 @ ?C\<rparr> \<and>
            (\<forall>i < length ?C. \<not> accepted ?w1 (os_log ?w1 @ take i ?C) (?C ! i))"
        and succ: "b \<longrightarrow> (\<exists>k < length ?C.
            os_log w' = os_log ?w1 @ take (Suc k) ?C \<and>
            (\<exists>s pw. fst (connect_to_network s pw (?w1\<lparr>os_log := os_log ?w1 @ take k ?C\<rparr>)) \<and>
               w' = snd (connect_to_network s pw (?w1\<lparr>os_log := os_log ?w1 @ take k ?C\<rparr>))) \<and>
            accepted ?w1 (os_log ?w1 @ take k ?C) (?C ! k) \<and>
            (\<forall>i < k. \<not> accepted ?w1 (os_log ?w1 @ take i ?C) (?C ! i)))"
        by blast
      show ?thesis
      proof (cases b)
        case False
        with fail have "w' = w\<lparr>os_log := os_log w @ cmds\<rparr>"
          and "\<forall>i < length ?C. \<not> accepted w (os_log w @ ?c # take i ?C) (?C ! i)"
          by (simp_all add: cmds)
        with \<open>\<not> accepted w (os_log w) ?c\<close>
        have "\<forall>i < length cmds. \<not> accepted w (os_log w @ take i cmds) (cmds ! i)"
          by (simp add: cmds All_less_Suc2)
        with False run r \<open>w' = w\<lparr>os_log := os_log w @ cmds\<rparr>\<close> show ?thesis
          by (intro exI[of _ False] exI[of _ w']) simp
      next
        case True
        with succ obtain k s pw where k: "k < length ?C"
          "os_log w' = os_log w @ take (Suc (Suc k)) cmds"
          "fst (connect_to_network s pw (w\<lparr>os_log := os_log w @ take (Suc k) cmds\<rparr>))"
          "w' = snd (connect_to_network s pw (w\<lparr>os_log := os_log w @ take (Suc k) cmds\<rparr>))"
          "accepted w (os_log w @ take (Suc k) cmds) (cmds ! Suc k)"
          "\<forall>i < k. \<not> accepted w (os_log w @ ?c # take i ?C) (?C ! i)"
          by (auto simp: cmds)
        from k(6) \<open>\<not> accepted w (os_log w) ?c\<close>
        have "\<forall>i < Suc k. \<not> accepted w (os_log w @ take i cmds) (cmds ! i)"
          by (simp add: cmds All_less_Suc2)
        with k(1-5) have "\<exists>k < length cmds.
            os_log w' = os_log w @ take (Suc k) cmds \<and>
            (\<exists>s pw. fst (connect_to_network s pw (w\<lparr>os_log := os_log w @ take k cmds\<rparr>)) \<and>
               w' = snd (connect_to_network s pw (w\<lparr>os_log := os_log w @ take k cmds\<rparr>))) \<and>
            accepted w (os_log w @ take k cmds) (cmds ! k) \<and>
            (\<forall>i < k. \<not> accepted w (os_log w @ take i cmds) (cmds ! i))"
          by (intro exI[of _ "Suc k"]) (auto simp: cmds)
        with True run r show ?thesis
          by (intro exI[of _ True] exI[of _ w']) simp
      qed
    qed
  qed
qed

lemma live_conv:
  "live w = (\<lambda>n. net_ssid n \<in> ssid ` set (fst (scan_networks (snd (get_current_connection w)))))"
  by (simp add: live_def fun_eq_iff)

lemma auto_connect_connected:
  assumes "truthy (fst (get_current_connection w))"
  shows "auto_connect w = (Inr True, w\<lparr>os_log := os_log w @ [active_argv]\<rparr>)"
proof -
  obtain cur w1 where g: "get_current_connection w = (cur, w1)" by force
  with get_current_connection_world[of w] have "w1 = w\<lparr>os_log := os_log w @ [active_argv]\<rparr>"
    by simp
  with g assms show ?thesis by (simp add: auto_connect_def)
qed

lemma auto_connect_unconnected:
  assumes "\<not> truthy (fst (get_current_connection w))"
  shows "auto_connect w =
           (case get_saved_networks w of
              Inl e \<Rightarrow> (Inl e, w\<lparr>os_log := os_log w @ [active_argv, scan_argv]\<rparr>)
            | Inr saved \<Rightarrow>
                try_saved saved (fst (scan_networks (snd (get_current_connection w))))
                  (w\<lparr>os_log := os_log w @ [active_argv, scan_argv]\<rparr>))"
proof -
  obtain cur w1 where g: "get_current_connection w = (cur, w1)" by force
  obtain av w2 where s: "scan_networks w1 = (av, w2)" by force
  from g get_current_connection_world[of w]
  have w1: "w1 = w\<lparr>os_log := os_log w @ [active_argv]\<rparr>" by simp
  from s scan_networks_world[of w1]
  have w2: "w2 = w\<lparr>os_log := os_log w @ [active_argv, scan_argv]\<rparr>" by (simp add: w1)
  have "get_saved_networks w2 = get_saved_networks w" by (simp add: w2)
  with assms g s show ?thesis
    by (simp add: auto_connect_def w2 split: sum.splits)
qed

text \<open>
  C1, counterexample. The saved networks are A (more recent) and B, both are in the scan;
  the operating system refuses the connection to A and accepts the one to B. After the
  failed attempt for A, \<open>auto_connect\<close> issues a second connect command, for B, and
  reports success.
\<close>

theorem auto_connect_single_attempt_counterexample:
  "os_reply world_A_fails [active_argv, scan_argv] [''nmcli'', ''dev'', ''wifi'', ''connect'', ''A''] =
     Some \<lparr>returncode = 1, stdout = [], stderr = []\<rparr> \<and>
   os_log (snd (auto_connect world_A_fails)) =
     [active_argv, scan_argv, [''nmcli'', ''dev'', ''wifi'', ''connect'', ''A''],
      [''nmcli'', ''dev'', ''wifi'', ''connect'', ''B'', ''password'', ''pb'']] \<and>
   fst (auto_connect world_A_fails) = Inr True"
  by code_simp

text \<open>
  C1, amended. When no network is active (and the store has the persisted layout),
  \<open>auto_connect\<close> goes through the saved networks that have a live match, in recency
  order, and issues the connect command of each as long as the operating system refuses
  them. It reports failure only after the commands of all of them have been issued and
  refused, and then the store is unchanged. It reports success at the first command that
  is accepted, and issues none after it.
\<close>

theorem auto_connect_tries_next_candidate:
  assumes "\<not> truthy (fst (get_current_connection w))"
    and "numeric_stamps (networks (load_config w))"
  shows "\<exists>b w'. auto_connect w = (Inr b, w') \<and>
           (\<not> b \<longrightarrow>
              os_log w' = os_log w @ [active_argv, scan_argv] @ attempt_commands w \<and>
              config_file w' = config_file w \<and>
              (\<forall>i < length (attempt_commands w).
                 \<not> accepted w (os_log w @ [active_argv, scan_argv] @ take i (attempt_commands w))
                     (attempt_commands w ! i))) \<and>
           (b \<longrightarrow>
              (\<exists>k < length (attempt_commands w).
                 os_log w' =
                   os_log w @ [active_argv, scan_argv] @ take (Suc k) (attempt_commands w) \<and>
                 accepted w (os_log w @ [active_argv, scan_argv] @ take k (attempt_commands w))
                   (attempt_commands w ! k) \<and>
                 (\<forall>i < k.
                    \<not> accepted w (os_log w @ [active_argv, scan_argv] @ take i (attempt_commands w))
                        (attempt_commands w ! i))))"
proof -
  let ?saved = "recency_order (networks (load_config w))"
  let ?av = "fst (scan_networks (snd (get_current_connection w)))"
  let ?w2 = "w\<lparr>os_log := os_log w @ [active_argv, scan_argv]\<rparr>"
  from get_saved_networks_numeric[OF assms(2)]
  have sv: "get_saved_networks w = Inr ?saved" .
  then have sv2: "get_saved_networks ?w2 = Inr ?saved" by simp
  from auto_connect_unconnected[OF assms(1)] sv
  have ac: "auto_connect w = try_saved ?saved ?av ?w2" by simp
  have d: "distinct (map ssid ?av)" by (rule scan_networks_distinct)
  have cmds: "attempt_commands w =
      map (\<lambda>n. connect_argv (net_ssid n) (stored_password ?saved (net_ssid n)))
        (filter (\<lambda>n. net_ssid n \<in> ssid ` set ?av) ?saved)"
    by (simp only: attempt_commands_def candidates_def live_conv)
  from try_saved_trace[OF d sv2 subset_refl cmds]
  obtain b w' where run: "try_saved ?saved ?av ?w2 = (Inr b, w')"
    and fail: "\<not> b \<longrightarrow> w' = ?w2\<lparr>os_log := os_log ?w2 @ attempt_commands w\<rparr> \<and>
        (\<forall>i < length (attempt_commands w).
           \<not> accepted ?w2 (os_log ?w2 @ take i (attempt_commands w)) (attempt_commands w ! i))"
    and succ: "b \<longrightarrow> (\<exists>k < length (attempt_commands w).
        os_log w' = os_log ?w2 @ take (Suc k) (attempt_commands w) \<and>
        accepted ?w2 (os_log ?w2 @ take k (attempt_commands w)) (attempt_commands w ! k) \<and>
        (\<forall>i < k. \<not> accepted ?w2 (os_log ?w2 @ take i (attempt_commands w))
                     (attempt_commands w ! i)))"
    by blast
  from fail have fail': "\<not> b \<longrightarrow>
      os_log w' = os_log w @ [active_argv, scan_argv] @ attempt_commands w \<and>
      config_file w' = config_file w \<and>
      (\<forall>i < length (attempt_commands w).
         \<not> accepted w (os_log w @ [active_argv, scan_argv] @ take i (attempt_commands w))
             (attempt_commands w ! i))"
    by simp
  from succ have succ': "b \<longrightarrow> (\<exists>k < length (attempt_commands w).
      os_log w' = os_log w @ [active_argv, scan_argv] @ take (Suc k) (attempt_commands w) \<and>
      accepted w (os_log w @ [active_argv, scan_argv] @ take k (attempt_commands w))
        (attempt_commands w ! k) \<and>
      (\<forall>i < k. \<not> accepted w (os_log w @ [active_argv, scan_argv] @ take i (attempt_commands w))
                   (attempt_commands w ! i)))"
    by simp
  from run have "auto_connect w = (Inr b, w')" by (simp only: ac)
  then show ?thesis by (intro exI[of _ b] exI[of _ w'] conjI fail' succ')
qed

text \<open>
  Witness for C1 amended: when both connections are refused, \<open>auto_connect\<close> issues the
  command for A, then the one for B, and reports failure; when only the one for A is
  refused, it reports success after the command for B.
\<close>

theorem auto_connect_tries_next_candidate_witness:
  "\<not> truthy (fst (get_current_connection world_all_fail)) \<and>
   numeric_stamps (networks (load_config world_all_fail)) \<and>
   attempt_commands world_all_fail =
     [[''nmcli'', ''dev'', ''wifi'', ''connect'', ''A''],
      [''nmcli'', ''dev'', ''wifi'', ''connect'', ''B'', ''password'', ''pb'']] \<and>
   fst (auto_connect world_all_fail) = Inr False \<and>
   os_log (snd (auto_connect world_all_fail)) =
     [active_argv, scan_argv] @ attempt_commands world_all_fail \<and>
   \<not> truthy (fst (get_current_connection world_A_fails)) \<and>
   numeric_stamps (networks (load_config world_A_fails)) \<and>
   fst (auto_connect world_A_fails) = Inr True \<and>
   os_log (snd (auto_connect world_A_fails)) =
     [active_argv, scan_argv] @ attempt_commands world_A_fails"
proof -
  have h: "\<not> truthy (fst (get_current_connection world_all_fail))" by code_simp
  have n: "numeric_stamps (networks (load_config world_all_fail))" by code_simp
  have c: "attempt_commands world_all_fail =
     [[''nmcli'', ''dev'', ''wifi'', ''connect'', ''A''],
      [''nmcli'', ''dev'', ''wifi'', ''connect'', ''B'', ''password'', ''pb'']]"
    by code_simp
  have f: "fst (auto_connect world_all_fail) = Inr False" by code_simp
  have l: "os_log world_all_fail = []" by code_simp
  from auto_connect_tries_next_candidate[OF h n]
  obtain b w' where ac: "auto_connect world_all_fail = (Inr b, w')"
    and fail: "\<not> b \<longrightarrow>
      os_log w' = os_log world_all_fail @ [active_argv, scan_argv] @ attempt_commands world_all_fail"
    by blast
  from ac f have "\<not> b" by simp
  with fail ac have "os_log (snd (auto_connect world_all_fail)) =
      os_log world_all_fail @ [active_argv, scan_argv] @ attempt_commands world_all_fail"
    by simp
  then have 1: "os_log (snd (auto_connect world_all_fail)) =
      [active_argv, scan_argv] @ attempt_commands world_all_fail"
    by (simp only: l append_Nil)
  have h': "\<not> truthy (fst (get_current_connection world_A_fails))" by code_simp
  have n': "numeric_stamps (networks (load_config world_A_fails))" by code_simp
  have s: "fst (auto_connect world_A_fails) = Inr True" by code_simp
  have l': "os_log world_A_fails = []" by code_simp
  have two: "length (attempt_commands world_A_fails) = 2" by code_simp
  have r: "\<not> accepted world_A_fails [active_argv, scan_argv] (attempt_commands world_A_fails ! 0)"
    by code_simp
  from auto_connect_tries_next_candidate[OF h' n']
  obtain b' w'' where ac': "auto_connect world_A_fails = (Inr b', w'')"
    and succ: "b' \<longrightarrow> (\<exists>k < length (attempt_commands world_A_fails).
      os_log w'' =
        os_log world_A_fails @ [active_argv, scan_argv] @
          take (Suc k) (attempt_commands world_A_fails) \<and>
      accepted world_A_fails
        (os_log world_A_fails @ [active_argv, scan_argv] @ take k (attempt_commands world_A_fails))
        (attempt_commands world_A_fails ! k))"
    by blast
  from ac' s have "b'" by simp
  with succ obtain k where k: "k < length (attempt_commands world_A_fails)"
    "os_log w'' =
       os_log world_A_fails @ [active_argv, scan_argv] @
         take (Suc k) (attempt_commands world_A_fails)"
    "accepted world_A_fails
       (os_log world_A_fails @ [active_argv, scan_argv] @ take k (attempt_commands world_A_fails))
       (attempt_commands world_A_fails ! k)"
    by blast
  have "k \<noteq> 0"
  proof
    assume "k = 0"
    with k(3) have "accepted world_A_fails [active_argv, scan_argv]
        (attempt_commands world_A_fails ! 0)"
      by (simp only: l' take_0 append_Nil append_Nil2)
    with r show False by simp
  qed
  with k(1) two have "Suc k = length (attempt_commands world_A_fails)" by simp
  then have "take (Suc k) (attempt_commands world_A_fails) = attempt_commands world_A_fails"
    by simp
  with k(2) ac' have 2: "os_log (snd (auto_connect world_A_fails)) =
      [active_argv, scan_argv] @ attempt_commands world_A_fails"
    by (simp only: l' append_Nil snd_conv)
  show ?thesis by (intro conjI h n c f 1 h' n' s 2)
qed



text \<open>
  C4, counterexample. The query for the active network answers \<open>yes:\<close>, an active row
  with an empty ssid, so that \<open>get_current_connection\<close> returns the empty string and not
  \<open>None\<close>. \<open>auto_connect\<close> scans all the same, connects to Home and rewrites its
  record in the store.
\<close>

theorem auto_connect_noop_counterexample:
  "fst (get_current_connection world_active_unnamed) = Some [] \<and>
   os_log (snd (auto_connect world_active_unnamed)) =
     [active_argv, scan_argv, [''nmcli'', ''dev'', ''wifi'', ''connect'', ''Home'', ''password'', ''secret'']] \<and>
   map last_used (networks (load_config world_active_unnamed)) = [Some (Num 5)] \<and>
   map last_used (networks (load_config (snd (auto_connect world_active_unnamed)))) =
     [Some (Num 1000)]"
  by code_simp

text \<open>
  C4, amended. If \<open>get_current_connection\<close> reports an active network with a non-empty
  ssid, \<open>auto_connect\<close> reports success and the only command issued is that query: no
  scan, no connect, and the store is unchanged.
\<close>

theorem auto_connect_noop_when_connected:
  assumes "fst (get_current_connection w) = Some s" and "s \<noteq> []"
  shows "auto_connect w = (Inr True, w\<lparr>os_log := os_log w @ [active_argv]\<rparr>) \<and>
         os_log (snd (auto_connect w)) = os_log w @ [active_argv] \<and>
         config_file (snd (auto_connect w)) = config_file w"
proof -
  from assms have "truthy (fst (get_current_connection w))" by (simp add: truthy_def)
  then have "auto_connect w = (Inr True, w\<lparr>os_log := os_log w @ [active_argv]\<rparr>)"
    by (rule auto_connect_connected)
  then show ?thesis by simp
qed

text \<open>
  Witness for C4 amended: the listing has the active row for Home; \<open>auto_connect\<close>
  returns success after the single query.
\<close>

theorem auto_connect_noop_when_connected_witness:
  "fst (get_current_connection world_active_Home) = Some ''Home'' \<and>
   fst (auto_connect world_active_Home) = Inr True \<and>
   os_log (snd (auto_connect world_active_Home)) = [active_argv] \<and>
   config_file (snd (auto_connect world_active_Home)) = config_file world_active_Home"
proof -
  have g: "fst (get_current_connection world_active_Home) = Some ''Home''" by code_simp
  have l: "os_log world_active_Home = []" by code_simp
  from auto_connect_noop_when_connected[OF g] l g show ?thesis
    by simp
qed

section \<open>Who writes the store\<close>

lemma store_effect_log:
  "store_effect (w\<lparr>os_log := l\<rparr>) res \<Longrightarrow> store_effect w res"
  by (auto simp: store_effect_def)

lemma store_effect_same: "store_effect w (r, w)"
proof -
  have "w = w\<lparr>os_log := os_log w\<rparr>" by simp
  then show ?thesis unfolding store_effect_def by (intro disjI1 exI[of _ "os_log w"]) simp
qed

lemma store_effect_connect_to_saved: "store_effect w (connect_to_saved s w)"
proof (cases "get_saved_networks w")
  case (Inl e)
  then show ?thesis by (simp add: connect_to_saved_def store_effect_same)
next
  case (Inr saved)
  show ?thesis
  proof (cases "find (\<lambda>n. net_ssid n = s) saved")
    case None
    with Inr show ?thesis by (simp add: connect_to_saved_def store_effect_same)
  next
    case (Some n)
    with Inr have c: "connect_to_saved s w =
        (Inr (fst (connect_to_network s (password n) w)),
         snd (connect_to_network s (password n) w))"
      by (simp add: connect_to_saved_def split: prod.splits)
    show ?thesis
    proof (cases "fst (connect_to_network s (password n) w)")
      case True
      have "w\<lparr>os_log := os_log w\<rparr> = w" by simp
      with True have "\<exists>s' pw l. fst (connect_to_network s' pw (w\<lparr>os_log := l\<rparr>)) \<and>
          snd (connect_to_network s (password n) w) =
            snd (connect_to_network s' pw (w\<lparr>os_log := l\<rparr>))"
        by (intro exI[of _ s] exI[of _ "password n"] exI[of _ "os_log w"]) simp
      with True show ?thesis by (simp add: c store_effect_def)
    next
      case False
      from connect_to_network_failed[OF False] show ?thesis
        by (auto simp: c store_effect_def)
    qed
  qed
qed

lemma store_effect_try_available: "store_effect w (try_available s av w)"
proof (induction av arbitrary: w)
  case Nil
  show ?case by (simp add: store_effect_same)
next
  case (Cons a avs)
  show ?case
  proof (cases "s = ssid a")
    case False
    with Cons show ?thesis by simp
  next
    case True
    obtain r w' where c: "connect_to_saved s w = (r, w')" by force
    from store_effect_connect_to_saved[of w s] c have e: "store_effect w (r, w')" by simp
    show ?thesis
    proof (cases "r = Inr False")
      case False
      with True c e show ?thesis by (cases r) (auto split: bool.splits)
    next
      case True
      with e obtain l where "w' = w\<lparr>os_log := l\<rparr>" by (auto simp: store_effect_def)
      with Cons.IH[of w'] have "store_effect w (try_available s avs w')"
        by (auto intro: store_effect_log)
      with True \<open>s = ssid a\<close> c show ?thesis by simp
    qed
  qed
qed

lemma store_effect_try_saved: "store_effect w (try_saved ns av w)"
proof (induction ns arbitrary: w)
  case Nil
  show ?case by (simp add: store_effect_same)
next
  case (Cons n ns)
  obtain r w' where t: "try_available (net_ssid n) av w = (r, w')" by force
  from store_effect_try_available[of w "net_ssid n" av] t have e: "store_effect w (r, w')"
    by simp
  show ?case
  proof (cases "r = Inr False")
    case False
    with t e show ?thesis by (cases r) (auto split: bool.splits)
  next
    case True
    with e obtain l where "w' = w\<lparr>os_log := l\<rparr>" by (auto simp: store_effect_def)
    with Cons.IH[of w'] have "store_effect w (try_saved ns av w')"
      by (auto intro: store_effect_log)
    with True t show ?thesis by simp
  qed
qed

lemma store_effect_auto_connect: "store_effect w (auto_connect w)"
proof (cases "truthy (fst (get_current_connection w))")
  case True
  from auto_connect_connected[OF True] show ?thesis
    by (auto simp: store_effect_def)
next
  case False
  let ?w2 = "w\<lparr>os_log := os_log w @ [active_argv, scan_argv]\<rparr>"
  show ?thesis
  proof (cases "get_saved_networks w")
    case (Inl e)
    with auto_connect_unconnected[OF False] show ?thesis
      by (auto simp: store_effect_def)
  next
    case (Inr saved)
    with auto_connect_unconnected[OF False]
    have "auto_connect w =
        try_saved saved (fst (scan_networks (snd (get_current_connection w)))) ?w2"
      by simp
    with store_effect_try_saved[of ?w2 saved] show ?thesis
      by (auto intro: store_effect_log)
  qed
qed

text \<open>
  C2, counterexample. A successful \<open>connect_to_network\<close> on an empty store returns a
  store that holds the network: the connector does persist.
\<close>

theorem connect_leaves_store_counterexample:
  "fst (connect_to_network ''Home'' (Some ''secret'') world_connect_ok) \<and>
   config_file world_connect_ok = Some \<lparr>networks = [], last_connected = None\<rparr> \<and>
   config_file (snd (connect_to_network ''Home'' (Some ''secret'') world_connect_ok)) =
     Some \<lparr>networks = [\<lparr>net_ssid = ''Home'', password = Some ''secret'',
                        last_used = Some (Num 1000)\<rparr>],
           last_connected = Some ''Home''\<rparr>"
  by code_simp

text \<open>
  C2, amended. \<open>connect_to_network\<close> leaves the stored state as it was when the attempt
  fails. When the attempt succeeds it persists the network itself: it writes the store in
  which the record of that ssid is replaced by one with the given credential and the
  current time, appended last, and the last-connected marker is set; if that write fails
  the file is left as it was, or left truncated (and read back as the empty default) when
  the failure comes after the file was opened. \<open>auto_connect\<close> does no persisting of its
  own: the state it leaves is the state it started from with only commands issued, or the
  state left by the successful \<open>connect_to_network\<close> it ended with.
\<close>

theorem connect_changes_store_only_on_success:
  "(\<not> fst (connect_to_network s cred w) \<longrightarrow>
      config_file (snd (connect_to_network s cred w)) = config_file w) \<and>
   (fst (connect_to_network s cred w) \<longrightarrow>
      config_file (snd (connect_to_network s cred w)) =
        (case fs_write w of
           Written \<Rightarrow>
             Some \<lparr>networks = filter (\<lambda>n. net_ssid n \<noteq> s) (networks (load_config w)) @
                               [\<lparr>net_ssid = s, password = cred, last_used = Some (Num (clock w))\<rparr>],
                   last_connected = Some s\<rparr>
         | Refused \<Rightarrow> config_file w
         | Truncated \<Rightarrow> None)) \<and>
   ((\<exists>l. snd (auto_connect w) = w\<lparr>os_log := l\<rparr>) \<or>
    (fst (auto_connect w) = Inr True \<and>
     (\<exists>s' pw l. fst (connect_to_network s' pw (w\<lparr>os_log := l\<rparr>)) \<and>
        snd (auto_connect w) = snd (connect_to_network s' pw (w\<lparr>os_log := l\<rparr>)))))"
proof (intro conjI)
  show "\<not> fst (connect_to_network s cred w) \<longrightarrow>
      config_file (snd (connect_to_network s cred w)) = config_file w"
    by (simp add: connect_to_network_cases split: option.splits)
  show "fst (connect_to_network s cred w) \<longrightarrow>
      config_file (snd (connect_to_network s cred w)) =
        (case fs_write w of
           Written \<Rightarrow>
             Some \<lparr>networks = filter (\<lambda>n. net_ssid n \<noteq> s) (networks (load_config w)) @
                               [\<lparr>net_ssid = s, password = cred, last_used = Some (Num (clock w))\<rparr>],
                   last_connected = Some s\<rparr>
         | Refused \<Rightarrow> config_file w
         | Truncated \<Rightarrow> None)"
    by (simp add: connect_to_network_cases save_network_def save_config_def load_config_def
        Let_def split: option.splits write_outcome.splits)
  from store_effect_auto_connect[of w]
  show "(\<exists>l. snd (auto_connect w) = w\<lparr>os_log := l\<rparr>) \<or>
    (fst (auto_connect w) = Inr True \<and>
     (\<exists>s' pw l. fst (connect_to_network s' pw (w\<lparr>os_log := l\<rparr>)) \<and>
        snd (auto_connect w) = snd (connect_to_network s' pw (w\<lparr>os_log := l\<rparr>))))"
    by (simp only: store_effect_def)
qed

text \<open>
  Witness for C2 amended: a refused attempt leaves the store of two networks alone; an
  accepted attempt for B rewrites it with B last, leaves it alone when the file cannot be
  opened, and leaves no readable store when the write fails after the open;
  \<open>auto_connect\<close> ends in the state that its connect to A left.
\<close>

theorem connect_changes_store_only_on_success_witness:
  "\<not> fst (connect_to_network ''B'' (Some ''pb'') world_connect_refused) \<and>
   config_file (snd (connect_to_network ''B'' (Some ''pb'') world_connect_refused)) = store_B_A \<and>
   fst (connect_to_network ''B'' (Some ''pb'') world_all_succeed) \<and>
   config_file (snd (connect_to_network ''B'' (Some ''pb'') world_all_succeed)) =
     Some \<lparr>networks = [net_A, \<lparr>net_ssid = ''B'', password = Some ''pb'',
                                last_used = Some (Num 1000)\<rparr>],
           last_connected = Some ''B''\<rparr> \<and>
   fst (connect_to_network ''B'' (Some ''pb'') world_read_only) \<and>
   config_file (snd (connect_to_network ''B'' (Some ''pb'') world_read_only)) = store_B_A \<and>
   fst (connect_to_network ''B'' (Some ''pb'') world_disk_full) \<and>
   config_file (snd (connect_to_network ''B'' (Some ''pb'') world_disk_full)) = None \<and>
   fst (auto_connect world_all_succeed) = Inr True \<and>
   config_file (snd (auto_connect world_all_succeed)) =
     config_file (snd (connect_to_network ''A'' None
       (world_all_succeed\<lparr>os_log := [active_argv, scan_argv]\<rparr>)))"
proof -
  have r: "\<not> fst (connect_to_network ''B'' (Some ''pb'') world_connect_refused)"
    by code_simp
  have c: "config_file world_connect_refused = store_B_A" by code_simp
  have a: "fst (connect_to_network ''B'' (Some ''pb'') world_all_succeed)" by code_simp
  have wr: "fs_write world_all_succeed = Written" by code_simp
  have n: "filter (\<lambda>n. net_ssid n \<noteq> ''B'') (networks (load_config world_all_succeed)) = [net_A]"
    by code_simp
  have t: "clock world_all_succeed = 1000" by code_simp
  have ro: "fst (connect_to_network ''B'' (Some ''pb'') world_read_only)" by code_simp
  have nw: "fs_write world_read_only = Refused" by code_simp
  have cr: "config_file world_read_only = store_B_A" by code_simp
  have df: "fst (connect_to_network ''B'' (Some ''pb'') world_disk_full)" by code_simp
  have tr: "fs_write world_disk_full = Truncated" by code_simp
  from connect_changes_store_only_on_success[of "''B''" "Some ''pb''" world_connect_refused] r c
  have 1: "config_file (snd (connect_to_network ''B'' (Some ''pb'') world_connect_refused)) =
      store_B_A"
    by simp
  from connect_changes_store_only_on_success[of "''B''" "Some ''pb''" world_all_succeed] a wr n t
  have 2: "config_file (snd (connect_to_network ''B'' (Some ''pb'') world_all_succeed)) =
     Some \<lparr>networks = [net_A, \<lparr>net_ssid = ''B'', password = Some ''pb'',
                                last_used = Some (Num 1000)\<rparr>],
           last_connected = Some ''B''\<rparr>"
    by simp
  from connect_changes_store_only_on_success[of "''B''" "Some ''pb''" world_read_only] ro nw cr
  have 3: "config_file (snd (connect_to_network ''B'' (Some ''pb'') world_read_only)) = store_B_A"
    by simp
  from connect_changes_store_only_on_success[of "''B''" "Some ''pb''" world_disk_full] df tr
  have 4: "config_file (snd (connect_to_network ''B'' (Some ''pb'') world_disk_full)) = None"
    by simp
  have 5: "fst (auto_connect world_all_succeed) = Inr True" by code_simp
  have 6: "config_file (snd (auto_connect world_all_succeed)) =
     config_file (snd (connect_to_network ''A'' None
       (world_all_succeed\<lparr>os_log := [active_argv, scan_argv]\<rparr>)))"
    by code_simp
  show ?thesis by (intro conjI r 1 a 2 ro 3 df 4 5 6)
qed

end
